theory Spec2Isabelle
  imports Complex_Main "HOL-Library.AList"
begin

section \<open>Python values and dictionaries\<close>

text \<open>
  The source is \<^verbatim>\<open>extract_frame_data/lod_matcher.py\<close>.  Component names and content
  hashes are Python strings.  The floats of the source (similarity scores, voxel sizes, the
  readings of \<^verbatim>\<open>time.time()\<close>) are only compared, subtracted and passed on, never
  rounded, so they are modelled as rationals.  Exceptions are values of \<open>error\<close>; a call
  that may raise returns \<open>error + 'a\<close> with \<open>Inl\<close> for the exception.
\<close>

type_synonym hash = string
type_synonym name = string

datatype error =
    ValueError string
  | StopIteration
  | KeyError string
  | AttributeError string
  | ExternalError string

text \<open>
  A Python \<^verbatim>\<open>dict\<close> keeps its keys in insertion order and holds each key once; it is an
  association list.  \<^verbatim>\<open>d[k] = v\<close> is \<^const>\<open>AList.update\<close> (the value is replaced in
  place when the key is present and appended otherwise), \<^verbatim>\<open>d[k]\<close> raises
  \<^verbatim>\<open>KeyError\<close> on a missing key, \<^verbatim>\<open>d.pop(k, None)\<close> returns the value or
  \<^verbatim>\<open>None\<close> and removes the key.
\<close>

type_synonym ('k, 'v) dict = "('k \<times> 'v) list"

definition dict_get :: "(string, 'v) dict \<Rightarrow> string \<Rightarrow> error + 'v" where
  "dict_get d k = (case map_of d k of None \<Rightarrow> Inl (KeyError k) | Some v \<Rightarrow> Inr v)"

definition dict_pop_default :: "('k, 'v) dict \<Rightarrow> 'k \<Rightarrow> 'v option \<times> ('k, 'v) dict" where
  "dict_pop_default d k = (map_of d k, AList.delete k d)"

definition dict_pop :: "(string, 'v) dict \<Rightarrow> string \<Rightarrow> error + ('v \<times> (string, 'v) dict)" where
  "dict_pop d k =
     (case map_of d k of None \<Rightarrow> Inl (KeyError k) | Some v \<Rightarrow> Inr (v, AList.delete k d))"

text \<open>\<^verbatim>\<open>d.update(items)\<close>, and a dict comprehension or \<^verbatim>\<open>dict(items)\<close> when \<open>d\<close> is empty.\<close>

definition dict_update :: "('k, 'v) dict \<Rightarrow> ('k \<times> 'v) list \<Rightarrow> ('k, 'v) dict" where
  "dict_update d items = foldl (\<lambda>acc (k, v). AList.update k v acc) d items"

definition dict_of :: "('k \<times> 'v) list \<Rightarrow> ('k, 'v) dict" where
  "dict_of items = dict_update [] items"

text \<open>
  \<^verbatim>\<open>sorted(items, key=itemgetter(1), reverse=True)\<close>: a stable sort by descending value.
  With \<^verbatim>\<open>reverse=True\<close> elements of equal key keep their original order; CPython
  reverses the list, sorts it stably in ascending order and reverses the result.
\<close>

definition sorted_reverse :: "('k \<times> rat) list \<Rightarrow> ('k \<times> rat) list" where
  "sorted_reverse items = rev (sort_key snd (rev items))"

text \<open>The slice \<^verbatim>\<open>xs[:k]\<close>; a negative \<open>k\<close> counts from the end.\<close>

definition slice_to :: "'a list \<Rightarrow> int \<Rightarrow> 'a list" where
  "slice_to xs k =
     (if 0 \<le> k then take (nat k) xs else take (nat (int (length xs) + k)) xs)"

text \<open>\<^verbatim>\<open>next(iter(d.items()))\<close> raises \<^verbatim>\<open>StopIteration\<close> on an empty dict.\<close>

definition next_iter :: "'a list \<Rightarrow> error + 'a" where
  "next_iter xs = (case xs of [] \<Rightarrow> Inl StopIteration | x # _ \<Rightarrow> Inr x)"

text \<open>A loop or comprehension whose body may raise stops at the first exception.\<close>

fun map_raise :: "('a \<Rightarrow> error + 'b) \<Rightarrow> 'a list \<Rightarrow> error + 'b list" where
  "map_raise f [] = Inr []"
| "map_raise f (x # xs) =
     (case f x of
        Inl e \<Rightarrow> Inl e
      | Inr y \<Rightarrow> (case map_raise f xs of Inl e \<Rightarrow> Inl e | Inr ys \<Rightarrow> Inr (y # ys)))"

fun fold_raise :: "('s \<Rightarrow> 'a \<Rightarrow> error + 's) \<Rightarrow> 's \<Rightarrow> 'a list \<Rightarrow> error + 's" where
  "fold_raise f s [] = Inr s"
| "fold_raise f s (x # xs) =
     (case f s x of Inl e \<Rightarrow> Inl e | Inr s' \<Rightarrow> fold_raise f s' xs)"

text \<open>\<^verbatim>\<open>str(i)\<close> of a natural number, for the component names.\<close>

fun str_nat :: "nat \<Rightarrow> string" where
  "str_nat n =
     (if n < 10 then [char_of (48 + n)]
      else str_nat (n div 10) @ [char_of (48 + n mod 10)])"

declare str_nat.simps [simp del]

section \<open>The matcher, its collaborators and its state\<close>

text \<open>
  \<^verbatim>\<open>GeometryMatcher\<close> carries the resolution that the scorer reads;
  \<^verbatim>\<open>match_by_geometry\<close> overwrites \<open>samples_count\<close> and \<open>voxel_size\<close> before each
  stage.
\<close>

record geometry_matcher =
  samples_count :: int
  voxel_size :: rat

text \<open>
  One entry of \<^verbatim>\<open>lod_objects\<close>: the component hashes read from its metadata JSON
  (\<open>Inl\<close> when reading them raises) and, per component, the mesh built inside the
  \<^verbatim>\<open>try\<close> of \<^verbatim>\<open>load_meshes\<close> (\<open>None\<close> when building it raised).
\<close>

record 'm object_data =
  metadata :: "error + hash list"
  components :: "'m option list"

text \<open>The fields of the dataclass.\<close>

record 'm lod_matcher =
  geo_matcher_voxel_size :: rat
  geo_matcher_sample_size :: int
  geo_matcher_prefilter_voxel_size :: rat
  geo_matcher_prefilter_sample_size :: int
  geo_matcher_prefilter_candidates_count :: int
  lod_model_path :: "unit option"
  lod_objects :: "(string, 'm object_data) dict option"

text \<open>
  What the matcher consumes from outside this file: the metadata files and the
  vertex buffers on disk, the scorer \<^verbatim>\<open>GeometryMatcher.calculate_similarity\<close>, the
  solver \<^verbatim>\<open>VertexGroupsMatcher.match_vertex_groups\<close>, the length of a mesh's vertex
  buffer, the resolution a fresh \<^verbatim>\<open>GeometryMatcher\<close> starts with, and the clock
  (\<open>clock i\<close> is what the \<open>i\<close>-th call of \<^verbatim>\<open>time.time()\<close> returns).  The scorer and
  the solver receive the LOD mesh as the source passes it, \<open>None\<close> included.
\<close>

record 'm collaborators =
  full_metadata :: "error + hash list"
  lod_metadata :: "error + hash list"
  full_from_paths :: "name \<Rightarrow> error + 'm"
  lod_from_paths :: "name \<Rightarrow> error + 'm"
  calculate_similarity :: "geometry_matcher \<Rightarrow> 'm \<Rightarrow> 'm option \<Rightarrow> error + rat"
  match_vertex_groups :: "'m \<Rightarrow> 'm option \<Rightarrow> error + (int, int) dict"
  vertex_buffer_len :: "'m \<Rightarrow> nat"
  new_geometry_matcher :: geometry_matcher
  clock :: "nat \<Rightarrow> rat"

text \<open>The lines that the source prints.\<close>

datatype line =
    Failed_to_load name
  | Load_time rat
  | By_hash name hash name nat rat
  | By_geo name hash name hash nat nat rat
  | Remapped nat nat
  | All_matched nat
  | Geo_time rat
  | Vg_time rat
  | Total_time rat

text \<open>The attributes that \<^verbatim>\<open>__post_init__\<close> creates, the output and the clock's position.\<close>

record 'm state =
  geo_matcher :: geometry_matcher
  full_components :: "(name, hash) dict"
  lod_components :: "(name, hash) dict"
  lod_hash_to_name :: "(hash, name) dict"
  full_meshes :: "(name, 'm) dict"
  lod_meshes :: "(name, 'm option) dict"
  matched :: "(hash, name \<times> hash \<times> rat) dict"
  vg_maps :: "(hash, hash \<times> (int, int) dict) dict"
  stdout :: "line list"
  ticks :: nat

definition post_init :: "'m collaborators \<Rightarrow> 'm state" where
  "post_init W =
     \<lparr> geo_matcher = new_geometry_matcher W,
       full_components = [], lod_components = [], lod_hash_to_name = [],
       full_meshes = [], lod_meshes = [], matched = [], vg_maps = [],
       stdout = [], ticks = 0 \<rparr>"

definition time_time :: "'m collaborators \<Rightarrow> 'm state \<Rightarrow> rat \<times> 'm state" where
  "time_time W s = (clock W (ticks s), s\<lparr>ticks := Suc (ticks s)\<rparr>)"

definition print :: "line \<Rightarrow> 'm state \<Rightarrow> 'm state" where
  "print l s = s\<lparr>stdout := stdout s @ [l]\<rparr>"

section \<open>Loading\<close>

definition component_name :: "nat \<Rightarrow> name" where
  "component_name i = ''Component '' @ str_nat i"

definition object_component_name :: "string \<Rightarrow> nat \<Rightarrow> name" where
  "object_component_name object_id i = object_id @ '' - Component '' @ str_nat i"

text \<open>\<^verbatim>\<open>_load_component_hashes\<close>, on the list of \<^verbatim>\<open>vb0_hash\<close> values of the metadata.\<close>

definition load_component_hashes_path :: "hash list \<Rightarrow> (name, hash) dict" where
  "load_component_hashes_path hs =
     dict_of (map (\<lambda>(i, h). (component_name i, h)) (enumerate 0 hs))"

definition load_component_hashes_json :: "string \<Rightarrow> hash list \<Rightarrow> (name, hash) dict" where
  "load_component_hashes_json object_id hs =
     dict_of (map (\<lambda>(i, h). (object_component_name object_id i, h)) (enumerate 0 hs))"

text \<open>The body of the loop over \<^verbatim>\<open>lod_objects\<close> in \<^verbatim>\<open>load_metadata\<close>.\<close>

definition update_lod_components ::
  "'m state \<Rightarrow> string \<times> 'm object_data \<Rightarrow> error + 'm state" where
  "update_lod_components s obj =
     (case obj of (object_id, obj_data) \<Rightarrow>
        (case metadata obj_data of
           Inl e \<Rightarrow> Inl e
         | Inr hs \<Rightarrow>
            Inr (s\<lparr>lod_components :=
                   dict_update (lod_components s) (load_component_hashes_json object_id hs)\<rparr>)))"

definition load_metadata ::
  "'m lod_matcher \<Rightarrow> 'm collaborators \<Rightarrow> 'm state \<Rightarrow> error + 'm state" where
  "load_metadata L W s =
     (case full_metadata W of
        Inl e \<Rightarrow> Inl e
      | Inr fhs \<Rightarrow>
         let s1 = s\<lparr>full_components := load_component_hashes_path fhs\<rparr> in
         (case (case lod_model_path L of
                  None \<Rightarrow> Inr s1
                | Some _ \<Rightarrow>
                   (case lod_metadata W of
                      Inl e \<Rightarrow> Inl e
                    | Inr lhs \<Rightarrow> Inr (s1\<lparr>lod_components := load_component_hashes_path lhs\<rparr>)))
          of
            Inl e \<Rightarrow> Inl e
          | Inr s2 \<Rightarrow>
             (case (case lod_objects L of
                      None \<Rightarrow> Inr s2
                    | Some objs \<Rightarrow> fold_raise update_lod_components s2 objs)
              of
                Inl e \<Rightarrow> Inl e
              | Inr s3 \<Rightarrow>
                 Inr (s3\<lparr>lod_hash_to_name :=
                        dict_of (map (\<lambda>(name, hash). (hash, name)) (lod_components s3))\<rparr>))))"

text \<open>
  The inner loop of \<^verbatim>\<open>load_meshes\<close> over the components of one extracted object: a mesh
  that fails to load is reported and stored as \<^verbatim>\<open>None\<close>.
\<close>

definition load_object_component :: "string \<Rightarrow> 'm state \<Rightarrow> nat \<times> 'm option \<Rightarrow> 'm state" where
  "load_object_component object_id s c =
     (case c of
        (component_id, Some mesh) \<Rightarrow>
          s\<lparr>lod_meshes :=
              AList.update (object_component_name object_id component_id) (Some mesh) (lod_meshes s)\<rparr>
      | (component_id, None) \<Rightarrow>
          (print (Failed_to_load (object_component_name object_id component_id)) s)
           \<lparr>lod_meshes :=
              AList.update (object_component_name object_id component_id) None (lod_meshes s)\<rparr>)"

definition load_object_meshes :: "'m state \<Rightarrow> string \<times> 'm object_data \<Rightarrow> 'm state" where
  "load_object_meshes s obj =
     (case obj of (object_id, obj_data) \<Rightarrow>
        foldl (load_object_component object_id) s (enumerate 0 (components obj_data)))"

definition load_meshes ::
  "'m lod_matcher \<Rightarrow> 'm collaborators \<Rightarrow> 'm state \<Rightarrow> error + 'm state" where
  "load_meshes L W s =
     (let (t0, s0) = time_time W s in
      case map_raise (\<lambda>name. case full_from_paths W name of
                                Inl e \<Rightarrow> Inl e | Inr m \<Rightarrow> Inr (name, m))
             (map fst (full_components s0)) of
        Inl e \<Rightarrow> Inl e
      | Inr fms \<Rightarrow>
         let s1 = s0\<lparr>full_meshes := dict_of fms\<rparr> in
         (case (case lod_model_path L of
                  None \<Rightarrow> Inr s1
                | Some _ \<Rightarrow>
                   (case map_raise (\<lambda>name. case lod_from_paths W name of
                                              Inl e \<Rightarrow> Inl e | Inr m \<Rightarrow> Inr (name, Some m))
                           (map fst (lod_components s1)) of
                      Inl e \<Rightarrow> Inl e
                    | Inr lms \<Rightarrow> Inr (s1\<lparr>lod_meshes := dict_of lms\<rparr>)))
          of
            Inl e \<Rightarrow> Inl e
          | Inr s2 \<Rightarrow>
             let s3 = (case lod_objects L of
                         None \<Rightarrow> s2
                       | Some objs \<Rightarrow> foldl load_object_meshes s2 objs);
                 (t1, s4) = time_time W s3
             in Inr (print (Load_time (t1 - t0)) s4)))"

section \<open>Matching\<close>

text \<open>
  \<^verbatim>\<open>run\<close> calls \<^verbatim>\<open>match_by_geometry\<close> only: its call of \<^verbatim>\<open>match_by_hash\<close> is
  commented out in the source, so that method is not part of what \<^verbatim>\<open>run\<close> executes.
\<close>

text \<open>
  The local function \<^verbatim>\<open>calculate_similarities\<close>: every entry of the given index is
  scored against the full mesh at the matcher's current resolution (the check for an
  absent LOD mesh is commented out in the source, so \<open>None\<close> reaches the scorer), and the
  scores are returned in descending order.
\<close>

definition calculate_similarities ::
  "'m collaborators \<Rightarrow> 'm state \<Rightarrow> 'm \<Rightarrow> (hash, name) dict \<Rightarrow> error + (hash, rat) dict" where
  "calculate_similarities W s full_mesh lod_hash_to_names =
     (case map_raise
             (\<lambda>(lod_hash, lod_name).
                case dict_get (lod_meshes s) lod_name of
                  Inl e \<Rightarrow> Inl e
                | Inr lod_mesh \<Rightarrow>
                   (case calculate_similarity W (geo_matcher s) full_mesh lod_mesh of
                      Inl e \<Rightarrow> Inl e
                    | Inr similarity \<Rightarrow> Inr (lod_hash, similarity)))
             lod_hash_to_names of
        Inl e \<Rightarrow> Inl e
      | Inr similarities \<Rightarrow> Inr (dict_of (sorted_reverse (dict_of similarities))))"

definition duplicate_message :: "hash \<Rightarrow> string" where
  "duplicate_message full_hash =
     ''Duplicate component vb0 hash '' @ full_hash @ '' found in Metadata.json!''"

text \<open>
  The branch \<^verbatim>\<open>best_lod_name is not None\<close> (lines 163 to 178): the LOD component of the
  same hash has just been popped from the index; it is scored at whatever resolution the
  matcher currently has.  The result is the state, \<open>best_lod_name\<close>, \<open>best_lod_hash\<close>,
  \<open>best_similarity\<close> and \<open>t_geo\<close>.
\<close>

definition claim_by_hash ::
  "'m collaborators \<Rightarrow> 'm state \<Rightarrow> name \<Rightarrow> hash \<Rightarrow> name \<Rightarrow>
     error + ('m state \<times> name \<times> hash \<times> rat \<times> rat)" where
  "claim_by_hash W s full_name full_hash best_lod_name =
     (case dict_get (full_meshes s) full_name of
        Inl e \<Rightarrow> Inl e
      | Inr full_mesh \<Rightarrow>
         (case dict_get (lod_meshes s) best_lod_name of
            Inl e \<Rightarrow> Inl e
          | Inr lod_mesh \<Rightarrow>
             (case calculate_similarity W (geo_matcher s) full_mesh lod_mesh of
                Inl e \<Rightarrow> Inl e
              | Inr similarity \<Rightarrow>
                 Inr (print (By_hash full_name full_hash best_lod_name
                               (length (lod_hash_to_name s)) similarity) s,
                      best_lod_name, full_hash, similarity, 0))))"

text \<open>The coarse stage (lines 186 to 191): the hashes kept by the prefilter.\<close>

definition prefilter ::
  "'m lod_matcher \<Rightarrow> 'm collaborators \<Rightarrow> 'm state \<Rightarrow> 'm \<Rightarrow> error + hash list" where
  "prefilter L W s full_mesh =
     (case calculate_similarities W s full_mesh (lod_hash_to_name s) of
        Inl e \<Rightarrow> Inl e
      | Inr prefiltered_similarities \<Rightarrow>
         Inr (slice_to (map fst prefiltered_similarities)
                (min (geo_matcher_prefilter_candidates_count L)
                     (int (length prefiltered_similarities)))))"

text \<open>
  Line 193: the index restricted to the prefiltered hashes, in their order.
\<close>

definition prefiltered_index :: "'m state \<Rightarrow> hash list \<Rightarrow> error + (hash, name) dict" where
  "prefiltered_index s prefiltered_lod_hashes =
     (case map_raise
             (\<lambda>hash. case dict_get (lod_hash_to_name s) hash of
                        Inl e \<Rightarrow> Inl e | Inr lod_name \<Rightarrow> Inr (hash, lod_name))
             prefiltered_lod_hashes of
        Inl e \<Rightarrow> Inl e
      | Inr items \<Rightarrow> Inr (dict_of items))"

text \<open>
  Lines 202 to 209: the first of the sorted fine scores wins and is popped from the index.
  Line 206 reads \<^verbatim>\<open>self.lod_meshes[best_lod_name].vertex_buffer\<close>, which raises
  \<^verbatim>\<open>AttributeError\<close> when the winner's mesh is \<^verbatim>\<open>None\<close>.
\<close>

definition claim_best ::
  "'m collaborators \<Rightarrow> 'm state \<Rightarrow> name \<Rightarrow> hash \<Rightarrow> (hash, rat) dict \<Rightarrow> rat \<Rightarrow>
     error + ('m state \<times> name \<times> hash \<times> rat \<times> rat)" where
  "claim_best W s full_name full_hash similarities t_geo =
     (case next_iter similarities of
        Inl e \<Rightarrow> Inl e
      | Inr (best_lod_hash, best_similarity) \<Rightarrow>
         (case dict_pop (lod_hash_to_name s) best_lod_hash of
            Inl e \<Rightarrow> Inl e
          | Inr (best_lod_name, pool) \<Rightarrow>
             (case dict_get (lod_meshes s) best_lod_name of
                Inl e \<Rightarrow> Inl e
              | Inr None \<Rightarrow> Inl (AttributeError ''vertex_buffer'')
              | Inr (Some lod_mesh) \<Rightarrow>
                 Inr (print (By_geo full_name full_hash best_lod_name best_lod_hash
                               (vertex_buffer_len W lod_mesh) (length pool) best_similarity)
                        (s\<lparr>lod_hash_to_name := pool\<rparr>),
                      best_lod_name, best_lod_hash, best_similarity, t_geo))))"

text \<open>
  Lines 186 and 187, and lines 195 and 196: the matcher is set to the prefilter resolution,
  then to the fine resolution.
\<close>

definition set_prefilter_resolution :: "'m lod_matcher \<Rightarrow> 'm state \<Rightarrow> 'm state" where
  "set_prefilter_resolution L s =
     s\<lparr>geo_matcher := (geo_matcher s)
         \<lparr>samples_count := geo_matcher_prefilter_sample_size L,
          voxel_size := geo_matcher_prefilter_voxel_size L\<rparr>\<rparr>"

definition set_fine_resolution :: "'m lod_matcher \<Rightarrow> 'm state \<Rightarrow> 'm state" where
  "set_fine_resolution L s =
     s\<lparr>geo_matcher := (geo_matcher s)
         \<lparr>samples_count := geo_matcher_sample_size L,
          voxel_size := geo_matcher_voxel_size L\<rparr>\<rparr>"

text \<open>
  The branch \<^verbatim>\<open>else\<close> (lines 180 to 209): the coarse prefilter at the prefilter
  resolution, the fine match on the prefiltered candidates at the fine resolution, and
  the claim of the best one.
\<close>

definition claim_by_geometry ::
  "'m lod_matcher \<Rightarrow> 'm collaborators \<Rightarrow> 'm state \<Rightarrow> name \<Rightarrow> hash \<Rightarrow> 'm \<Rightarrow>
     error + ('m state \<times> name \<times> hash \<times> rat \<times> rat)" where
  "claim_by_geometry L W s full_name full_hash full_mesh =
     (let (t_geo, s1) = time_time W s;
          s2 = set_prefilter_resolution L s1
      in
      case prefilter L W s2 full_mesh of
        Inl e \<Rightarrow> Inl e
      | Inr prefiltered_lod_hashes \<Rightarrow>
         (case prefiltered_index s2 prefiltered_lod_hashes of
            Inl e \<Rightarrow> Inl e
          | Inr lod_hash_to_names \<Rightarrow>
             let s3 = set_fine_resolution L s2 in
             (case calculate_similarities W s3 full_mesh lod_hash_to_names of
                Inl e \<Rightarrow> Inl e
              | Inr similarities \<Rightarrow>
                 let (t1, s4) = time_time W s3
                 in claim_best W s4 full_name full_hash similarities (t1 - t_geo))))"

text \<open>
  Lines 211 to 235: the match is recorded, the vertex groups are matched, and the map is
  stored when at least one index changes.
\<close>

definition record_match ::
  "'m collaborators \<Rightarrow> 'm state \<Rightarrow> hash \<Rightarrow> 'm \<Rightarrow> name \<Rightarrow> hash \<Rightarrow> rat \<Rightarrow> rat \<Rightarrow>
     error + 'm state" where
  "record_match W s full_hash full_mesh best_lod_name best_lod_hash best_similarity t_geo =
     (let s1 = s\<lparr>matched := AList.update full_hash
                               (best_lod_name, best_lod_hash, best_similarity) (matched s)\<rparr>;
          (t_vg, s2) = time_time W s1
      in
      case dict_get (lod_meshes s2) best_lod_name of
        Inl e \<Rightarrow> Inl e
      | Inr lod_mesh \<Rightarrow>
         (case match_vertex_groups W full_mesh lod_mesh of
            Inl e \<Rightarrow> Inl e
          | Inr vg_map \<Rightarrow>
             let (t1, s3) = time_time W s2;
                 remapped = length (filter (\<lambda>(k, v). k \<noteq> v) vg_map);
                 s4 = (if remapped > 0
                       then print (Remapped remapped
                                     (if length vg_map = 0 then 1 else length vg_map))
                              (s3\<lparr>vg_maps := AList.update full_hash (best_lod_hash, vg_map)
                                                (vg_maps s3)\<rparr>)
                       else print (All_matched (length vg_map)) s3)
             in Inr (print (Vg_time (t1 - t_vg)) (print (Geo_time t_geo) s4))))"

text \<open>One iteration of the loop of \<^verbatim>\<open>match_by_geometry\<close> (lines 150 to 235).\<close>

definition match_component ::
  "'m lod_matcher \<Rightarrow> 'm collaborators \<Rightarrow> 'm state \<Rightarrow> name \<times> hash \<Rightarrow> error + 'm state" where
  "match_component L W s c =
     (case c of (full_name, full_hash) \<Rightarrow>
        if full_hash \<in> set (map fst (matched s))
        then Inl (ValueError (duplicate_message full_hash))
        else
          (case dict_get (full_meshes s) full_name of
             Inl e \<Rightarrow> Inl e
           | Inr full_mesh \<Rightarrow>
              let (popped, pool) = dict_pop_default (lod_hash_to_name s) full_hash;
                  s1 = s\<lparr>lod_hash_to_name := pool\<rparr>
              in
              (case (case popped of
                       Some best_lod_name \<Rightarrow>
                         claim_by_hash W s1 full_name full_hash best_lod_name
                     | None \<Rightarrow>
                         claim_by_geometry L W s1 full_name full_hash full_mesh)
               of
                 Inl e \<Rightarrow> Inl e
               | Inr (s2, best_lod_name, best_lod_hash, best_similarity, t_geo) \<Rightarrow>
                  record_match W s2 full_hash full_mesh
                    best_lod_name best_lod_hash best_similarity t_geo)))"

definition match_by_geometry ::
  "'m lod_matcher \<Rightarrow> 'm collaborators \<Rightarrow> 'm state \<Rightarrow> error + 'm state" where
  "match_by_geometry L W s = fold_raise (match_component L W) s (full_components s)"

section \<open>Public API\<close>

text \<open>
  \<^verbatim>\<open>run\<close> on a fresh instance.  \<open>run_state\<close> is the instance after the call (it holds
  the secondary table \<open>vg_maps\<close>), \<open>run\<close> is the returned \<^verbatim>\<open>self.matched\<close>.
\<close>

definition run_state :: "'m lod_matcher \<Rightarrow> 'm collaborators \<Rightarrow> error + 'm state" where
  "run_state L W =
     (let (t0, s0) = time_time W (post_init W) in
      case load_metadata L W s0 of
        Inl e \<Rightarrow> Inl e
      | Inr s1 \<Rightarrow>
         (case load_meshes L W s1 of
            Inl e \<Rightarrow> Inl e
          | Inr s2 \<Rightarrow>
             (case match_by_geometry L W s2 of
                Inl e \<Rightarrow> Inl e
              | Inr s3 \<Rightarrow>
                 let (t1, s4) = time_time W s3
                 in Inr (print (Total_time (t1 - t0)) s4))))"

definition run ::
  "'m lod_matcher \<Rightarrow> 'm collaborators \<Rightarrow> error + (hash, name \<times> hash \<times> rat) dict" where
  "run L W = (case run_state L W of Inl e \<Rightarrow> Inl e | Inr s \<Rightarrow> Inr (matched s))"

text \<open>The instance when \<^verbatim>\<open>run\<close> reaches its call of \<^verbatim>\<open>match_by_geometry\<close>.\<close>

definition loaded :: "'m lod_matcher \<Rightarrow> 'm collaborators \<Rightarrow> error + 'm state" where
  "loaded L W =
     (case load_metadata L W (snd (time_time W (post_init W))) of
        Inl e \<Rightarrow> Inl e
      | Inr s1 \<Rightarrow> load_meshes L W s1)"

text \<open>The LOD content hashes that the records of a match table reference, in table order.\<close>

definition claimed_lod_hashes :: "(hash, name \<times> hash \<times> rat) dict \<Rightarrow> hash list" where
  "claimed_lod_hashes table = map (\<lambda>(full_hash, lod_name, lod_hash, similarity). lod_hash) table"

text \<open>The LOD component names that the records of a match table reference.\<close>

definition claimed_lod_names :: "(hash, name \<times> hash \<times> rat) dict \<Rightarrow> name list" where
  "claimed_lod_names table = map (\<lambda>(full_hash, lod_name, lod_hash, similarity). lod_name) table"

text \<open>
  The claim invariant of the candidate pool: the LOD hashes referenced by the records are
  pairwise different and none of them is still in the pool.
\<close>

definition unique_claims :: "'m state \<Rightarrow> bool" where
  "unique_claims s \<longleftrightarrow>
     distinct (claimed_lod_hashes (matched s)) \<and>
     set (claimed_lod_hashes (matched s)) \<inter> fst ` set (lod_hash_to_name s) = {}"

text \<open>The instance without what it has printed.\<close>

definition quiet :: "'m state \<Rightarrow> 'm state" where
  "quiet s = s\<lparr>stdout := []\<rparr>"

section \<open>Example inputs\<close>

text \<open>
  Concrete inputs on which the definitions are evaluated.  A mesh is an integer; the
  example scorer returns \<open>100 - |a - b|\<close> and raises on an absent mesh, the example solver
  returns an identity map, the files are given as a table from component name to mesh.
\<close>

definition example_matcher :: "int lod_matcher" where
  "example_matcher =
     \<lparr> geo_matcher_voxel_size = 1, geo_matcher_sample_size = 1000,
       geo_matcher_prefilter_voxel_size = 4, geo_matcher_prefilter_sample_size = 100,
       geo_matcher_prefilter_candidates_count = 2,
       lod_model_path = Some (), lod_objects = None \<rparr>"

definition example_score :: "geometry_matcher \<Rightarrow> int \<Rightarrow> int option \<Rightarrow> error + rat" where
  "example_score g a b =
     (case b of
        None \<Rightarrow> Inl (AttributeError ''NoneType'')
      | Some m \<Rightarrow> Inr (of_int (100 - \<bar>a - m\<bar>)))"

definition example_files :: "(name \<times> int) list \<Rightarrow> name \<Rightarrow> error + int" where
  "example_files fs n =
     (case map_of fs n of None \<Rightarrow> Inl (ExternalError n) | Some m \<Rightarrow> Inr m)"

definition example_world ::
  "hash list \<Rightarrow> (name \<times> int) list \<Rightarrow> hash list \<Rightarrow> (name \<times> int) list \<Rightarrow> int collaborators" where
  "example_world fhs ffs lhs lfs =
     \<lparr> full_metadata = Inr fhs, lod_metadata = Inr lhs,
       full_from_paths = example_files ffs, lod_from_paths = example_files lfs,
       calculate_similarity = example_score,
       match_vertex_groups = (\<lambda>a b. Inr [(0, 0), (1, 1)]),
       vertex_buffer_len = nat,
       new_geometry_matcher = \<lparr>samples_count = 500, voxel_size = 2\<rparr>,
       clock = of_nat \<rparr>"

text \<open>
  The instance after loading a full model with one component (hash \<open>h1\<close>, mesh \<open>10\<close>) and
  a LOD model with three components (hashes \<open>h2\<close>, \<open>h3\<close>, \<open>h4\<close>, meshes \<open>11\<close>, \<open>21\<close>, \<open>31\<close>).
\<close>

definition example_state :: "int state" where
  "example_state =
     \<lparr> geo_matcher = \<lparr>samples_count = 500, voxel_size = 2\<rparr>,
       full_components = [(''Component 0'', ''h1'')],
       lod_components = [(''Component 0'', ''h2''), (''Component 1'', ''h3''),
                         (''Component 2'', ''h4'')],
       lod_hash_to_name = [(''h2'', ''Component 0''), (''h3'', ''Component 1''),
                           (''h4'', ''Component 2'')],
       full_meshes = [(''Component 0'', 10)],
       lod_meshes = [(''Component 0'', Some 11), (''Component 1'', Some 21),
                     (''Component 2'', Some 31)],
       matched = [], vg_maps = [], stdout = [Load_time 1], ticks = 3 \<rparr>"

definition example_world_3 :: "int collaborators" where
  "example_world_3 =
     example_world [''h1''] [(''Component 0'', 10)]
       [''h2'', ''h3'', ''h4'']
       [(''Component 0'', 11), (''Component 1'', 21), (''Component 2'', 31)]"

text \<open>
  A full model with two components (hashes \<open>h1\<close>, \<open>h2\<close>, meshes \<open>10\<close>, \<open>20\<close>) and a LOD
  model with two components (hashes \<open>h2\<close>, \<open>h3\<close>, meshes \<open>11\<close>, \<open>21\<close>), and the instance
  after \<^verbatim>\<open>run\<close> on them.
\<close>

definition example_world_2 :: "int collaborators" where
  "example_world_2 =
     example_world [''h1'', ''h2''] [(''Component 0'', 10), (''Component 1'', 20)]
       [''h2'', ''h3''] [(''Component 0'', 11), (''Component 1'', 21)]"

definition example_final_2 :: "int state" where
  "example_final_2 =
     \<lparr> geo_matcher = \<lparr>samples_count = 1000, voxel_size = 1\<rparr>,
       full_components = [(''Component 0'', ''h1''), (''Component 1'', ''h2'')],
       lod_components = [(''Component 0'', ''h2''), (''Component 1'', ''h3'')],
       lod_hash_to_name = [],
       full_meshes = [(''Component 0'', 10), (''Component 1'', 20)],
       lod_meshes = [(''Component 0'', Some 11), (''Component 1'', Some 21)],
       matched = [(''h1'', ''Component 0'', ''h2'', 99), (''h2'', ''Component 1'', ''h3'', 99)],
       vg_maps = [],
       stdout =
         [Load_time 1,
          By_geo ''Component 0'' ''h1'' ''Component 0'' ''h2'' 11 1 99,
          All_matched 2, Geo_time 1, Vg_time 1,
          By_geo ''Component 1'' ''h2'' ''Component 1'' ''h3'' 21 0 99,
          All_matched 2, Geo_time 1, Vg_time 1, Total_time 11],
       ticks = 12 \<rparr>"

text \<open>The instance \<open>example_state\<close> after its component has claimed a LOD component by geometry.\<close>

definition example_state_claimed :: "int state" where
  "example_state_claimed =
     \<lparr> geo_matcher = \<lparr>samples_count = 1000, voxel_size = 1\<rparr>,
       full_components = [(''Component 0'', ''h1'')],
       lod_components = [(''Component 0'', ''h2''), (''Component 1'', ''h3''),
                         (''Component 2'', ''h4'')],
       lod_hash_to_name = [(''h3'', ''Component 1''), (''h4'', ''Component 2'')],
       full_meshes = [(''Component 0'', 10)],
       lod_meshes = [(''Component 0'', Some 11), (''Component 1'', Some 21),
                     (''Component 2'', Some 31)],
       matched = [], vg_maps = [],
       stdout = [Load_time 1, By_geo ''Component 0'' ''h1'' ''Component 0'' ''h2'' 11 2 99],
       ticks = 5 \<rparr>"

text \<open>
  A full model with one component (hash \<open>h1\<close>, mesh \<open>10\<close>) and no LOD model on disk; the
  LOD side is one extracted object \<open>obj\<close> with one component whose mesh fails to load, with
  a hash of its own (\<open>h2\<close>) or with the hash of the full component.  \<open>tolerant_score\<close> is a
  scorer that does not raise on an absent mesh.
\<close>

definition example_world_1 :: "int collaborators" where
  "example_world_1 = example_world [''h1''] [(''Component 0'', 10)] [] []"

definition example_matcher_objects :: "int lod_matcher" where
  "example_matcher_objects =
     example_matcher
       \<lparr> lod_model_path := None,
         lod_objects := Some [(''obj'', \<lparr>metadata = Inr [''h2''], components = [None]\<rparr>)] \<rparr>"

definition example_matcher_objects_same_hash :: "int lod_matcher" where
  "example_matcher_objects_same_hash =
     example_matcher
       \<lparr> lod_model_path := None,
         lod_objects := Some [(''obj'', \<lparr>metadata = Inr [''h1''], components = [None]\<rparr>)] \<rparr>"

definition tolerant_score :: "geometry_matcher \<Rightarrow> int \<Rightarrow> int option \<Rightarrow> error + rat" where
  "tolerant_score g a b =
     (case b of None \<Rightarrow> Inr 0 | Some m \<Rightarrow> Inr (of_int (100 - \<bar>a - m\<bar>)))"

text \<open>
  A full model whose two components share the hash \<open>h1\<close> (meshes \<open>10\<close>, \<open>20\<close>), a LOD model
  with one component (hash \<open>h2\<close>, mesh \<open>11\<close>), the instance after loading them, and a scorer
  that raises whenever it is called.
\<close>

definition example_world_6 :: "int collaborators" where
  "example_world_6 =
     example_world [''h1'', ''h1''] [(''Component 0'', 10), (''Component 1'', 20)]
       [''h2''] [(''Component 0'', 11)]"


definition failing_score :: "geometry_matcher \<Rightarrow> int \<Rightarrow> int option \<Rightarrow> error + rat" where
  "failing_score g a b = Inl (ExternalError ''scorer called'')"

text \<open>
  A full model with one component (hash \<open>h2\<close>, mesh \<open>10\<close>) and a LOD model with two
  components: the first (hash \<open>h3\<close>) has the same mesh \<open>10\<close>, the second has the hash
  \<open>h2\<close> of the full component and the mesh \<open>50\<close>; and the instance after loading them.
\<close>

definition example_world_5 :: "int collaborators" where
  "example_world_5 =
     example_world [''h2''] [(''Component 0'', 10)]
       [''h3'', ''h2''] [(''Component 0'', 10), (''Component 1'', 50)]"

definition example_state_5 :: "int state" where
  "example_state_5 =
     \<lparr> geo_matcher = \<lparr>samples_count = 500, voxel_size = 2\<rparr>,
       full_components = [(''Component 0'', ''h2'')],
       lod_components = [(''Component 0'', ''h3''), (''Component 1'', ''h2'')],
       lod_hash_to_name = [(''h3'', ''Component 0''), (''h2'', ''Component 1'')],
       full_meshes = [(''Component 0'', 10)],
       lod_meshes = [(''Component 0'', Some 10), (''Component 1'', Some 50)],
       matched = [], vg_maps = [], stdout = [Load_time 1], ticks = 3 \<rparr>"

text \<open>The instance after loading the inputs of \<open>example_world_2\<close>.\<close>

definition example_state_2 :: "int state" where
  "example_state_2 =
     \<lparr> geo_matcher = \<lparr>samples_count = 500, voxel_size = 2\<rparr>,
       full_components = [(''Component 0'', ''h1''), (''Component 1'', ''h2'')],
       lod_components = [(''Component 0'', ''h2''), (''Component 1'', ''h3'')],
       lod_hash_to_name = [(''h2'', ''Component 0''), (''h3'', ''Component 1'')],
       full_meshes = [(''Component 0'', 10), (''Component 1'', 20)],
       lod_meshes = [(''Component 0'', Some 11), (''Component 1'', Some 21)],
       matched = [], vg_maps = [], stdout = [Load_time 1], ticks = 3 \<rparr>"

text \<open>
  A solver that moves a vertex group for the full mesh \<open>10\<close> and for no other, the inputs
  of \<open>example_world_2\<close> with this solver, and the instance after \<^verbatim>\<open>run\<close> on them.
\<close>

definition example_solver :: "int \<Rightarrow> int option \<Rightarrow> error + (int, int) dict" where
  "example_solver a b = Inr [(0, 0), (1, if a = 10 then 2 else 1)]"

definition example_world_8 :: "int collaborators" where
  "example_world_8 = example_world_2\<lparr>match_vertex_groups := example_solver\<rparr>"

definition example_final_8 :: "int state" where
  "example_final_8 =
     example_final_2
       \<lparr> vg_maps := [(''h1'', ''h2'', [(0, 0), (1, 2)])],
         stdout :=
           [Load_time 1,
            By_geo ''Component 0'' ''h1'' ''Component 0'' ''h2'' 11 1 99,
            Remapped 1 2, Geo_time 1, Vg_time 1,
            By_geo ''Component 1'' ''h2'' ''Component 1'' ''h3'' 21 0 99,
            All_matched 2, Geo_time 1, Vg_time 1, Total_time 11] \<rparr>"

text \<open>
  The inputs of \<open>example_world_8\<close> with another clock and another reading of the size of
  a vertex buffer.
\<close>

definition example_world_9 :: "int collaborators" where
  "example_world_9 =
     example_world_8\<lparr>vertex_buffer_len := (\<lambda>m. 0), clock := (\<lambda>n. 7 * of_nat n + 3)\<rparr>"

section \<open>Facts about the dictionary operations\<close>

lemma fold_raise_append:
  "fold_raise f s (xs @ ys) =
     (case fold_raise f s xs of Inl e \<Rightarrow> Inl e | Inr t \<Rightarrow> fold_raise f t ys)"
  by (induction xs arbitrary: s) (simp_all split: sum.splits)

lemma fold_raise_invariant:
  assumes "fold_raise f s xs = Inr t" and "P s"
    and "\<And>a x b. P a \<Longrightarrow> x \<in> set xs \<Longrightarrow> f a x = Inr b \<Longrightarrow> P b"
  shows "P t"
  using assms
proof (induction xs arbitrary: s)
  case Nil
  then show ?case by simp
next
  case (Cons x xs)
  from Cons.prems(1) obtain u where u: "f s x = Inr u" and r: "fold_raise f u xs = Inr t"
    by (simp split: sum.splits)
  have pu: "P u"
    by (rule Cons.prems(3)[OF Cons.prems(2) _ u]) simp
  show ?case
  proof (rule Cons.IH[OF r pu])
    fix a y b
    assume "P a" and "y \<in> set xs" and "f a y = Inr b"
    then show "P b"
      by (intro Cons.prems(3)[of a y b]) simp_all
  qed
qed

lemma update_fresh: "k \<notin> fst ` set d \<Longrightarrow> AList.update k v d = d @ [(k, v)]"
  by (induction d) auto

lemma dict_update_keys: "fst ` set (dict_update d xs) = fst ` set d \<union> fst ` set xs"
  unfolding dict_update_def
proof (induction xs arbitrary: d)
  case Nil then show ?case by simp
next
  case (Cons x xs)
  obtain k v where x: "x = (k, v)" by (cases x)
  have "fst ` set (foldl (\<lambda>acc (k, v). AList.update k v acc) (AList.update k v d) xs)
        = fst ` set (AList.update k v d) \<union> fst ` set xs"
    by (rule Cons.IH)
  also have "\<dots> = fst ` set d \<union> fst ` set ((k, v) # xs)"
    by (auto simp: AList.dom_update)
  finally show ?case by (simp add: x)
qed

lemma dict_update_distinct:
  "distinct (map fst d) \<Longrightarrow> distinct (map fst (dict_update d xs))"
  unfolding dict_update_def
proof (induction xs arbitrary: d)
  case Nil then show ?case by simp
next
  case (Cons x xs)
  obtain k v where x: "x = (k, v)" by (cases x)
  have "distinct (map fst (AList.update k v d))"
    using Cons.prems by (rule AList.distinct_update)
  then show ?case using Cons.IH[of "AList.update k v d"] by (simp add: x)
qed

lemma dict_update_append:
  "distinct (map fst (d @ xs)) \<Longrightarrow> dict_update d xs = d @ xs"
  unfolding dict_update_def
proof (induction xs arbitrary: d)
  case Nil then show ?case by simp
next
  case (Cons x xs)
  obtain k v where x: "x = (k, v)" by (cases x)
  from Cons.prems x have "k \<notin> fst ` set d" by auto
  then have "AList.update k v d = d @ [(k, v)]" by (rule update_fresh)
  moreover from Cons.prems x have "distinct (map fst ((d @ [(k, v)]) @ xs))" by auto
  ultimately show ?case using Cons.IH[of "d @ [(k, v)]"] x by simp
qed

lemma dict_of_keys: "fst ` set (dict_of xs) = fst ` set xs"
  by (simp add: dict_of_def dict_update_keys)

lemma dict_of_distinct: "distinct (map fst (dict_of xs))"
  by (simp add: dict_of_def dict_update_distinct)

lemma dict_of_id: "distinct (map fst xs) \<Longrightarrow> dict_of xs = xs"
  using dict_update_append[of "[]" xs] by (simp add: dict_of_def)

lemma sorted_reverse_set: "set (sorted_reverse xs) = set xs"
  by (simp add: sorted_reverse_def)

lemma distinct_map_insort_key:
  "distinct (map g (insort_key f x xs)) = (g x \<notin> g ` set xs \<and> distinct (map g xs))"
  by (induction xs) (auto simp: set_insort_key)

lemma distinct_map_sort_key: "distinct (map g (sort_key f xs)) = distinct (map g xs)"
  by (induction xs) (simp_all add: distinct_map_insort_key)

lemma sorted_reverse_distinct: "distinct (map fst (sorted_reverse xs)) = distinct (map fst xs)"
proof -
  have "distinct (map fst (sorted_reverse xs)) = distinct (rev (map fst (sort_key snd (rev xs))))"
    by (simp only: sorted_reverse_def rev_map)
  also have "\<dots> = distinct (map fst (rev xs))"
    by (simp only: distinct_rev distinct_map_sort_key)
  also have "\<dots> = distinct (rev (map fst xs))"
    by (simp only: rev_map)
  finally show ?thesis by (simp only: distinct_rev)
qed

lemma sorted_reverse_length: "length (sorted_reverse xs) = length xs"
  by (simp add: sorted_reverse_def)

lemma slice_to_subset: "set (slice_to xs k) \<subseteq> set xs"
  by (auto simp: slice_to_def dest: in_set_takeD)

lemma slice_to_length: "0 \<le> k \<Longrightarrow> length (slice_to xs k) \<le> nat k"
  by (simp add: slice_to_def)

lemma slice_to_distinct: "distinct xs \<Longrightarrow> distinct (slice_to xs k)"
  by (simp add: slice_to_def)

lemma map_raise_keys:
  assumes "map_raise f xs = Inr ys" and "\<And>x y. f x = Inr y \<Longrightarrow> fst y = g x"
  shows "map fst ys = map g xs"
  using assms
  by (induction xs arbitrary: ys) (auto split: sum.splits)

section \<open>What one iteration of the matching loop does\<close>

lemma claim_by_hash_Inr:
  assumes "claim_by_hash W s full_name full_hash lod_name = Inr (s2, lname, lhash, sim, t)"
  shows "lname = lod_name \<and> lhash = full_hash \<and> t = 0 \<and>
     (\<exists>fm lm. dict_get (full_meshes s) full_name = Inr fm \<and>
        dict_get (lod_meshes s) lod_name = Inr lm \<and>
        calculate_similarity W (geo_matcher s) fm lm = Inr sim) \<and>
     s2 = print (By_hash full_name full_hash lod_name (length (lod_hash_to_name s)) sim) s"
  using assms by (auto simp: claim_by_hash_def split: sum.splits)

lemma claim_best_Inr:
  assumes "claim_best W s full_name full_hash sims t = Inr (s2, lname, lhash, sim, t2)"
  shows "sims \<noteq> [] \<and> (lhash, sim) = hd sims \<and> t2 = t \<and>
     map_of (lod_hash_to_name s) lhash = Some lname \<and>
     (\<exists>m. map_of (lod_meshes s) lname = Some (Some m) \<and>
     s2 = print (By_geo full_name full_hash lname lhash (vertex_buffer_len W m)
                   (length (AList.delete lhash (lod_hash_to_name s))) sim)
            (s\<lparr>lod_hash_to_name := AList.delete lhash (lod_hash_to_name s)\<rparr>))"
  using assms
  by (auto simp: claim_best_def next_iter_def dict_pop_def dict_get_def
      split: sum.splits list.splits option.splits)

lemma calculate_similarities_keys:
  assumes "calculate_similarities W s fm idx = Inr sims"
  shows "fst ` set sims = fst ` set idx"
proof -
  from assms obtain raw where raw: "map_raise
       (\<lambda>(lod_hash, lod_name).
          case dict_get (lod_meshes s) lod_name of
            Inl e \<Rightarrow> Inl e
          | Inr lod_mesh \<Rightarrow>
             (case calculate_similarity W (geo_matcher s) fm lod_mesh of
                Inl e \<Rightarrow> Inl e
              | Inr similarity \<Rightarrow> Inr (lod_hash, similarity))) idx = Inr raw"
    and sims: "sims = dict_of (sorted_reverse (dict_of raw))"
    by (auto simp: calculate_similarities_def split: sum.splits)
  have "map fst raw = map fst idx"
    by (rule map_raise_keys[OF raw]) (auto split: sum.splits)
  then have "fst ` set raw = fst ` set idx"
    by (metis list.set_map)
  then show ?thesis
    by (simp add: sims dict_of_keys sorted_reverse_set)
qed

lemma calculate_similarities_distinct:
  assumes "calculate_similarities W s fm idx = Inr sims"
  shows "distinct (map fst sims)"
  using assms
  by (auto simp: calculate_similarities_def dict_of_distinct split: sum.splits)

lemma prefilter_Inr:
  assumes "prefilter L W s fm = Inr pre"
  shows "set pre \<subseteq> fst ` set (lod_hash_to_name s) \<and> distinct pre \<and>
     (0 \<le> geo_matcher_prefilter_candidates_count L \<longrightarrow>
        length pre \<le> nat (geo_matcher_prefilter_candidates_count L))"
proof -
  from assms obtain sims where
    sims: "calculate_similarities W s fm (lod_hash_to_name s) = Inr sims"
    and pre: "pre = slice_to (map fst sims)
                (min (geo_matcher_prefilter_candidates_count L) (int (length sims)))"
    by (auto simp: prefilter_def split: sum.splits)
  have "set pre \<subseteq> set (map fst sims)"
    unfolding pre by (rule slice_to_subset)
  then have a: "set pre \<subseteq> fst ` set (lod_hash_to_name s)"
    using calculate_similarities_keys[OF sims] by simp
  have b: "distinct pre"
    unfolding pre by (rule slice_to_distinct) (rule calculate_similarities_distinct[OF sims])
  have c: "length pre \<le> nat (geo_matcher_prefilter_candidates_count L)"
    if "0 \<le> geo_matcher_prefilter_candidates_count L"
  proof -
    have "length pre \<le> nat (min (geo_matcher_prefilter_candidates_count L) (int (length sims)))"
      unfolding pre by (rule slice_to_length) (use that in simp)
    then show ?thesis by simp
  qed
  from a b c show ?thesis by blast
qed

lemma prefiltered_index_keys:
  assumes "prefiltered_index s pre = Inr idx"
  shows "fst ` set idx = set pre"
proof -
  from assms obtain items where items: "map_raise
       (\<lambda>hash. case dict_get (lod_hash_to_name s) hash of
                  Inl e \<Rightarrow> Inl e | Inr lod_name \<Rightarrow> Inr (hash, lod_name)) pre = Inr items"
    and idx: "idx = dict_of items"
    by (auto simp: prefiltered_index_def split: sum.splits)
  have "map fst items = map (\<lambda>h. h) pre"
    by (rule map_raise_keys[OF items]) (auto split: sum.splits)
  then have "fst ` set items = set pre"
    by (metis list.set_map list.map_ident)
  then show ?thesis by (simp add: idx dict_of_keys)
qed


lemma claim_by_geometry_Inr:
  assumes "claim_by_geometry L W s full_name full_hash fm = Inr (s2, lname, lhash, sim, t)"
  shows "\<exists>pre. prefilter L W (set_prefilter_resolution L (snd (time_time W s))) fm = Inr pre \<and>
           lhash \<in> set pre"
    and "map_of (lod_hash_to_name s) lhash = Some lname"
    and "lod_hash_to_name s2 = AList.delete lhash (lod_hash_to_name s)"
    and "matched s2 = matched s" and "vg_maps s2 = vg_maps s"
    and "full_components s2 = full_components s" and "lod_components s2 = lod_components s"
    and "full_meshes s2 = full_meshes s" and "lod_meshes s2 = lod_meshes s"
proof -
  let ?s2 = "set_prefilter_resolution L (snd (time_time W s))"
  let ?s3 = "set_fine_resolution L ?s2"
  let ?s4 = "snd (time_time W ?s3)"
  from assms obtain pre idx sims t0 where
    pre: "prefilter L W ?s2 fm = Inr pre"
    and idx: "prefiltered_index ?s2 pre = Inr idx"
    and sims: "calculate_similarities W ?s3 fm idx = Inr sims"
    and best: "claim_best W ?s4 full_name full_hash sims t0 = Inr (s2, lname, lhash, sim, t)"
    by (auto simp: claim_by_geometry_def Let_def split_beta split: sum.splits)
  note b = claim_best_Inr[OF best]
  have frame: "lod_hash_to_name ?s4 = lod_hash_to_name s" "lod_meshes ?s4 = lod_meshes s"
    "matched ?s4 = matched s" "vg_maps ?s4 = vg_maps s"
    "full_components ?s4 = full_components s" "lod_components ?s4 = lod_components s"
    "full_meshes ?s4 = full_meshes s"
    by (simp_all add: time_time_def set_prefilter_resolution_def set_fine_resolution_def)
  from b have "lhash \<in> fst ` set sims"
    by (metis fst_conv hd_in_set image_eqI)
  then have "lhash \<in> set pre"
    using calculate_similarities_keys[OF sims] prefiltered_index_keys[OF idx] by simp
  with pre show "\<exists>pre. prefilter L W ?s2 fm = Inr pre \<and> lhash \<in> set pre" by blast
  from b frame show "map_of (lod_hash_to_name s) lhash = Some lname" by simp
  from b obtain m where s2: "s2 = print (By_geo full_name full_hash lname lhash (vertex_buffer_len W m)
                   (length (AList.delete lhash (lod_hash_to_name ?s4))) sim)
            (?s4\<lparr>lod_hash_to_name := AList.delete lhash (lod_hash_to_name ?s4)\<rparr>)"
    by blast
  show "lod_hash_to_name s2 = AList.delete lhash (lod_hash_to_name s)"
    unfolding s2 using frame by (simp add: print_def)
  show "matched s2 = matched s" unfolding s2 using frame by (simp add: print_def)
  show "vg_maps s2 = vg_maps s" unfolding s2 using frame by (simp add: print_def)
  show "full_components s2 = full_components s" unfolding s2 using frame by (simp add: print_def)
  show "lod_components s2 = lod_components s" unfolding s2 using frame by (simp add: print_def)
  show "full_meshes s2 = full_meshes s" unfolding s2 using frame by (simp add: print_def)
  show "lod_meshes s2 = lod_meshes s" unfolding s2 using frame by (simp add: print_def)
qed

lemma record_match_Inr:
  assumes "record_match W s fh fm lname lhash sim t = Inr u"
  shows "matched u = AList.update fh (lname, lhash, sim) (matched s)"
    and "lod_hash_to_name u = lod_hash_to_name s"
    and "full_components u = full_components s" and "lod_components u = lod_components s"
    and "full_meshes u = full_meshes s" and "lod_meshes u = lod_meshes s"
    and "geo_matcher u = geo_matcher s"
    and "\<exists>lm vg. dict_get (lod_meshes s) lname = Inr lm \<and> match_vertex_groups W fm lm = Inr vg \<and>
        vg_maps u = (if filter (\<lambda>(k, v). k \<noteq> v) vg \<noteq> []
                     then AList.update fh (lhash, vg) (vg_maps s) else vg_maps s)"
proof -
  from assms obtain lm vg where lm: "dict_get (lod_meshes s) lname = Inr lm"
    and vg: "match_vertex_groups W fm lm = Inr vg"
    by (auto simp: record_match_def Let_def split_beta time_time_def split: sum.splits)
  note defs = record_match_def Let_def split_beta time_time_def print_def
  show "matched u = AList.update fh (lname, lhash, sim) (matched s)"
    using assms lm vg by (auto simp: defs split: if_splits)
  show "lod_hash_to_name u = lod_hash_to_name s"
    using assms lm vg by (auto simp: defs split: if_splits)
  show "full_components u = full_components s"
    using assms lm vg by (auto simp: defs split: if_splits)
  show "lod_components u = lod_components s"
    using assms lm vg by (auto simp: defs split: if_splits)
  show "full_meshes u = full_meshes s"
    using assms lm vg by (auto simp: defs split: if_splits)
  show "lod_meshes u = lod_meshes s"
    using assms lm vg by (auto simp: defs split: if_splits)
  show "geo_matcher u = geo_matcher s"
    using assms lm vg by (auto simp: defs split: if_splits)
  have "vg_maps u = (if filter (\<lambda>(k, v). k \<noteq> v) vg \<noteq> []
                     then AList.update fh (lhash, vg) (vg_maps s) else vg_maps s)"
    using assms lm vg by (auto simp: defs split: if_splits)
  with lm vg show "\<exists>lm vg. dict_get (lod_meshes s) lname = Inr lm \<and>
        match_vertex_groups W fm lm = Inr vg \<and>
        vg_maps u = (if filter (\<lambda>(k, v). k \<noteq> v) vg \<noteq> []
                     then AList.update fh (lhash, vg) (vg_maps s) else vg_maps s)"
    by blast
qed

lemma match_component_Inr:
  assumes "match_component L W s (fn, fh) = Inr u"
  shows "fh \<notin> fst ` set (matched s)"
    and "full_components u = full_components s" and "lod_components u = lod_components s"
    and "full_meshes u = full_meshes s" and "lod_meshes u = lod_meshes s"
    and "\<exists>lname lhash sim fm lm vg.
        map_of (lod_hash_to_name s) lhash = Some lname \<and>
        (fh \<in> fst ` set (lod_hash_to_name s) \<longrightarrow> lhash = fh) \<and>
        lod_hash_to_name u = AList.delete lhash (lod_hash_to_name s) \<and>
        matched u = matched s @ [(fh, lname, lhash, sim)] \<and>
        dict_get (full_meshes s) fn = Inr fm \<and>
        dict_get (lod_meshes s) lname = Inr lm \<and>
        match_vertex_groups W fm lm = Inr vg \<and>
        vg_maps u = (if filter (\<lambda>(k, v). k \<noteq> v) vg \<noteq> []
                     then AList.update fh (lhash, vg) (vg_maps s) else vg_maps s)"
proof -
  from assms show fresh: "fh \<notin> fst ` set (matched s)"
    by (auto simp: match_component_def split: if_splits)
  from assms fresh obtain fm where fm: "dict_get (full_meshes s) fn = Inr fm"
    by (auto simp: match_component_def split: sum.splits)
  let ?s1 = "s\<lparr>lod_hash_to_name := AList.delete fh (lod_hash_to_name s)\<rparr>"
  from assms fresh fm obtain s2 lname lhash sim t where
    claim: "(case map_of (lod_hash_to_name s) fh of
               Some b \<Rightarrow> claim_by_hash W ?s1 fn fh b
             | None \<Rightarrow> claim_by_geometry L W ?s1 fn fh fm) = Inr (s2, lname, lhash, sim, t)"
    and rec: "record_match W s2 fh fm lname lhash sim t = Inr u"
    by (auto simp: match_component_def dict_pop_default_def Let_def split: sum.splits)
  note r = record_match_Inr[OF rec]
  have s2: "map_of (lod_hash_to_name s) lhash = Some lname \<and>
      (fh \<in> fst ` set (lod_hash_to_name s) \<longrightarrow> lhash = fh) \<and>
      lod_hash_to_name s2 = AList.delete lhash (lod_hash_to_name s) \<and>
      matched s2 = matched s \<and> vg_maps s2 = vg_maps s \<and>
      full_components s2 = full_components s \<and> lod_components s2 = lod_components s \<and>
      full_meshes s2 = full_meshes s \<and> lod_meshes s2 = lod_meshes s"
  proof (cases "map_of (lod_hash_to_name s) fh")
    case None
    then have notin: "fh \<notin> fst ` set (lod_hash_to_name s)"
      by (simp add: map_of_eq_None_iff)
    then have same: "AList.delete fh (lod_hash_to_name s) = lod_hash_to_name s"
      by (rule AList.delete_id)
    from claim None have "claim_by_geometry L W ?s1 fn fh fm = Inr (s2, lname, lhash, sim, t)"
      by simp
    note g = claim_by_geometry_Inr[OF this]
    from g(2-) same notin show ?thesis by simp
  next
    case (Some b)
    with claim have "claim_by_hash W ?s1 fn fh b = Inr (s2, lname, lhash, sim, t)" by simp
    note h = claim_by_hash_Inr[OF this]
    from h Some show ?thesis
      by (simp add: print_def AList.delete_idem)
  qed
  from r(3) s2 show "full_components u = full_components s" by simp
  from r(4) s2 show "lod_components u = lod_components s" by simp
  from r(5) s2 show "full_meshes u = full_meshes s" by simp
  from r(6) s2 show "lod_meshes u = lod_meshes s" by simp
  from r(8) obtain lm vg where lm: "dict_get (lod_meshes s2) lname = Inr lm"
    and vg: "match_vertex_groups W fm lm = Inr vg"
    and vgm: "vg_maps u = (if filter (\<lambda>(k, v). k \<noteq> v) vg \<noteq> []
                     then AList.update fh (lhash, vg) (vg_maps s2) else vg_maps s2)"
    by blast
  have m: "matched u = matched s @ [(fh, lname, lhash, sim)]"
    using r(1) s2 fresh by (simp add: update_fresh)
  have p: "lod_hash_to_name u = AList.delete lhash (lod_hash_to_name s)"
    using r(2) s2 by simp
  from s2 lm vg vgm m p fm
  show "\<exists>lname lhash sim fm lm vg.
        map_of (lod_hash_to_name s) lhash = Some lname \<and>
        (fh \<in> fst ` set (lod_hash_to_name s) \<longrightarrow> lhash = fh) \<and>
        lod_hash_to_name u = AList.delete lhash (lod_hash_to_name s) \<and>
        matched u = matched s @ [(fh, lname, lhash, sim)] \<and>
        dict_get (full_meshes s) fn = Inr fm \<and>
        dict_get (lod_meshes s) lname = Inr lm \<and>
        match_vertex_groups W fm lm = Inr vg \<and>
        vg_maps u = (if filter (\<lambda>(k, v). k \<noteq> v) vg \<noteq> []
                     then AList.update fh (lhash, vg) (vg_maps s) else vg_maps s)"
    by (intro exI[of _ lname] exI[of _ lhash] exI[of _ sim] exI[of _ fm] exI[of _ lm]
        exI[of _ vg]) simp
qed

section \<open>Component names\<close>

lemma str_nat_not_Nil: "str_nat n \<noteq> []"
  by (subst str_nat.simps) simp

lemma char_of_nat_inj:
  fixes a b :: nat
  assumes "a < 256" and "b < 256" and "(char_of a :: char) = char_of b"
  shows "a = b"
proof -
  have "(of_char (char_of a :: char) :: nat) = of_char (char_of b :: char)"
    using assms(3) by simp
  then show ?thesis using assms(1,2) by (simp add: of_char_of)
qed

lemma str_nat_inj: "str_nat m = str_nat n \<Longrightarrow> m = n"
proof (induction m arbitrary: n rule: str_nat.induct)
  case (1 m)
  show ?case
  proof (cases "m < 10")
    case True
    then have m: "str_nat m = [char_of (48 + m)]" by (subst str_nat.simps) simp
    show ?thesis
    proof (cases "n < 10")
      case True
      then have "str_nat n = [char_of (48 + n)]" by (subst str_nat.simps) simp
      with m "1.prems" have "(char_of (48 + m) :: char) = char_of (48 + n)" by simp
      then have "48 + m = 48 + n"
        by (rule char_of_nat_inj[rotated 2]) (use True \<open>m < 10\<close> in simp_all)
      then show ?thesis by simp
    next
      case False
      then have "str_nat n = str_nat (n div 10) @ [char_of (48 + n mod 10)]"
        by (subst str_nat.simps) simp
      with m "1.prems" str_nat_not_Nil[of "n div 10"] show ?thesis
        by (cases "str_nat (n div 10)") simp_all
    qed
  next
    case False
    then have m: "str_nat m = str_nat (m div 10) @ [char_of (48 + m mod 10)]"
      by (subst str_nat.simps) simp
    show ?thesis
    proof (cases "n < 10")
      case True
      then have "str_nat n = [char_of (48 + n)]" by (subst str_nat.simps) simp
      with m "1.prems" str_nat_not_Nil[of "m div 10"] show ?thesis
        by (cases "str_nat (m div 10)") simp_all
    next
      case nf: False
      then have "str_nat n = str_nat (n div 10) @ [char_of (48 + n mod 10)]"
        by (subst str_nat.simps) simp
      with m "1.prems" have a: "str_nat (m div 10) = str_nat (n div 10)"
        and b: "(char_of (48 + m mod 10) :: char) = char_of (48 + n mod 10)" by simp_all
      from "1.IH"[OF False a] have d: "m div 10 = n div 10" .
      have "48 + m mod 10 = 48 + n mod 10"
        by (rule char_of_nat_inj[OF _ _ b]) simp_all
      then have "m mod 10 = n mod 10" by simp
      with d show ?thesis by (metis div_mult_mod_eq)
    qed
  qed
qed

lemma component_name_inj: "inj component_name"
  by (rule injI) (simp add: component_name_def str_nat_inj)

lemma map_fst_relabel: "map fst (map (\<lambda>(i, h). (f i, h)) xs) = map f (map fst xs)"
  by (induction xs) auto

lemma map_snd_relabel: "map snd (map (\<lambda>(i, h). (f i, h)) xs) = map snd xs"
  by (induction xs) auto

lemma load_component_hashes_path_eq:
  "load_component_hashes_path hs = map (\<lambda>(i, h). (component_name i, h)) (enumerate 0 hs)"
proof -
  have "inj_on component_name (set [0..<0 + length hs])"
    by (rule inj_on_subset[OF component_name_inj subset_UNIV])
  then have "distinct (map component_name [0..<0 + length hs])"
    by (simp add: distinct_map)
  then have "distinct (map fst (map (\<lambda>(i, h). (component_name i, h)) (enumerate 0 hs)))"
    by (simp only: map_fst_relabel map_fst_enumerate)
  then show ?thesis
    unfolding load_component_hashes_path_def by (rule dict_of_id)
qed

lemma load_component_hashes_path_hashes:
  "map snd (load_component_hashes_path hs) = hs"
  by (simp only: load_component_hashes_path_eq map_snd_relabel map_snd_enumerate)

section \<open>What loading establishes\<close>

lemma update_lod_components_frame:
  assumes "update_lod_components s obj = Inr u"
  shows "matched u = matched s" and "vg_maps u = vg_maps s"
    and "full_components u = full_components s"
  using assms
  by (auto simp: update_lod_components_def split: prod.splits sum.splits)

lemma load_metadata_Inr:
  assumes "load_metadata L W s = Inr u"
  shows "matched u = matched s" and "vg_maps u = vg_maps s"
    and "\<exists>fhs. full_metadata W = Inr fhs \<and> full_components u = load_component_hashes_path fhs"
    and "lod_hash_to_name u = dict_of (map (\<lambda>(name, hash). (hash, name)) (lod_components u))"
proof -
  from assms obtain fhs where fhs: "full_metadata W = Inr fhs"
    by (auto simp: load_metadata_def split: sum.splits)
  let ?s1 = "s\<lparr>full_components := load_component_hashes_path fhs\<rparr>"
  from assms fhs obtain s2 where
    s2: "(case lod_model_path L of
            None \<Rightarrow> Inr ?s1
          | Some _ \<Rightarrow>
             (case lod_metadata W of
                Inl e \<Rightarrow> Inl e
              | Inr lhs \<Rightarrow> Inr (?s1\<lparr>lod_components := load_component_hashes_path lhs\<rparr>))) = Inr s2"
    by (auto simp: load_metadata_def Let_def split: sum.splits)
  from assms fhs s2 obtain s3 where
    s3: "(case lod_objects L of
            None \<Rightarrow> Inr s2
          | Some objs \<Rightarrow> fold_raise update_lod_components s2 objs) = Inr s3"
    and u: "u = s3\<lparr>lod_hash_to_name :=
                    dict_of (map (\<lambda>(name, hash). (hash, name)) (lod_components s3))\<rparr>"
    by (auto simp: load_metadata_def Let_def split: sum.splits)
  from s2 have a2: "matched s2 = matched s \<and> vg_maps s2 = vg_maps s \<and>
      full_components s2 = load_component_hashes_path fhs"
    by (auto split: option.splits sum.splits)
  have a3: "matched s3 = matched s \<and> vg_maps s3 = vg_maps s \<and>
      full_components s3 = load_component_hashes_path fhs"
  proof (cases "lod_objects L")
    case None
    with s3 a2 show ?thesis by simp
  next
    case (Some objs)
    with s3 have f: "fold_raise update_lod_components s2 objs = Inr s3" by simp
    show ?thesis
      by (rule fold_raise_invariant[OF f, where P = "\<lambda>a. matched a = matched s \<and>
            vg_maps a = vg_maps s \<and> full_components a = load_component_hashes_path fhs"])
         (use a2 in \<open>auto dest: update_lod_components_frame\<close>)
  qed
  from a3 u show "matched u = matched s" by simp
  from a3 u show "vg_maps u = vg_maps s" by simp
  from a3 u fhs show "\<exists>fhs. full_metadata W = Inr fhs \<and>
      full_components u = load_component_hashes_path fhs" by simp
  from u show "lod_hash_to_name u =
      dict_of (map (\<lambda>(name, hash). (hash, name)) (lod_components u))" by simp
qed

lemma load_object_component_frame:
  "matched (load_object_component oid s c) = matched s \<and>
   vg_maps (load_object_component oid s c) = vg_maps s \<and>
   full_components (load_object_component oid s c) = full_components s \<and>
   lod_components (load_object_component oid s c) = lod_components s \<and>
   lod_hash_to_name (load_object_component oid s c) = lod_hash_to_name s"
  by (auto simp: load_object_component_def print_def split: prod.splits option.splits)

lemma foldl_frame:
  assumes "\<And>a x. g (f a x) = g a"
  shows "g (foldl f s xs) = g s"
  by (induction xs arbitrary: s) (simp_all add: assms)

lemma load_object_meshes_frame:
  "matched (load_object_meshes s obj) = matched s \<and>
   vg_maps (load_object_meshes s obj) = vg_maps s \<and>
   full_components (load_object_meshes s obj) = full_components s \<and>
   lod_components (load_object_meshes s obj) = lod_components s \<and>
   lod_hash_to_name (load_object_meshes s obj) = lod_hash_to_name s"
  unfolding load_object_meshes_def
  by (cases obj) (simp add: foldl_frame load_object_component_frame)

lemma load_meshes_Inr:
  assumes "load_meshes L W s = Inr u"
  shows "matched u = matched s" and "vg_maps u = vg_maps s"
    and "full_components u = full_components s" and "lod_components u = lod_components s"
    and "lod_hash_to_name u = lod_hash_to_name s"
proof -
  let ?s0 = "snd (time_time W s)"
  from assms obtain fms where fms: "map_raise (\<lambda>name. case full_from_paths W name of
                                Inl e \<Rightarrow> Inl e | Inr m \<Rightarrow> Inr (name, m))
             (map fst (full_components ?s0)) = Inr fms"
    by (auto simp: load_meshes_def Let_def split_beta split: sum.splits)
  let ?s1 = "?s0\<lparr>full_meshes := dict_of fms\<rparr>"
  from assms fms obtain s2 where
    s2: "(case lod_model_path L of
                  None \<Rightarrow> Inr ?s1
                | Some _ \<Rightarrow>
                   (case map_raise (\<lambda>name. case lod_from_paths W name of
                                              Inl e \<Rightarrow> Inl e | Inr m \<Rightarrow> Inr (name, Some m))
                           (map fst (lod_components ?s1)) of
                      Inl e \<Rightarrow> Inl e
                    | Inr lms \<Rightarrow> Inr (?s1\<lparr>lod_meshes := dict_of lms\<rparr>))) = Inr s2"
    and u: "u = print (Load_time (fst (time_time W (case lod_objects L of
                         None \<Rightarrow> s2
                       | Some objs \<Rightarrow> foldl load_object_meshes s2 objs)) - fst (time_time W s)))
                 (snd (time_time W (case lod_objects L of
                         None \<Rightarrow> s2
                       | Some objs \<Rightarrow> foldl load_object_meshes s2 objs)))"
    by (auto simp: load_meshes_def Let_def split_beta split: sum.splits)
  from s2 have a2: "matched s2 = matched s \<and> vg_maps s2 = vg_maps s \<and>
      full_components s2 = full_components s \<and> lod_components s2 = lod_components s \<and>
      lod_hash_to_name s2 = lod_hash_to_name s"
    by (auto simp: time_time_def split: option.splits sum.splits)
  let ?s3 = "case lod_objects L of None \<Rightarrow> s2 | Some objs \<Rightarrow> foldl load_object_meshes s2 objs"
  have a3: "matched ?s3 = matched s \<and> vg_maps ?s3 = vg_maps s \<and>
      full_components ?s3 = full_components s \<and> lod_components ?s3 = lod_components s \<and>
      lod_hash_to_name ?s3 = lod_hash_to_name s"
    using a2 by (simp add: foldl_frame load_object_meshes_frame split: option.splits)
  from a3 show "matched u = matched s" unfolding u by (simp add: print_def time_time_def)
  from a3 show "vg_maps u = vg_maps s" unfolding u by (simp add: print_def time_time_def)
  from a3 show "full_components u = full_components s"
    unfolding u by (simp add: print_def time_time_def)
  from a3 show "lod_components u = lod_components s"
    unfolding u by (simp add: print_def time_time_def)
  from a3 show "lod_hash_to_name u = lod_hash_to_name s"
    unfolding u by (simp add: print_def time_time_def)
qed

lemma loaded_Inr:
  assumes "loaded L W = Inr s"
  shows "matched s = []" and "vg_maps s = []"
    and "\<exists>fhs. full_metadata W = Inr fhs \<and> full_components s = load_component_hashes_path fhs"
    and "lod_hash_to_name s = dict_of (map (\<lambda>(name, hash). (hash, name)) (lod_components s))"
proof -
  from assms obtain s1 where
    s1: "load_metadata L W (snd (time_time W (post_init W))) = Inr s1"
    and s: "load_meshes L W s1 = Inr s"
    by (auto simp: loaded_def split: sum.splits)
  note m = load_metadata_Inr[OF s1]
  note l = load_meshes_Inr[OF s]
  from m(1) l(1) show "matched s = []" by (simp add: time_time_def post_init_def)
  from m(2) l(2) show "vg_maps s = []" by (simp add: time_time_def post_init_def)
  from m(3) l(3) show "\<exists>fhs. full_metadata W = Inr fhs \<and>
      full_components s = load_component_hashes_path fhs" by simp
  from m(4) l(4,5) show "lod_hash_to_name s =
      dict_of (map (\<lambda>(name, hash). (hash, name)) (lod_components s))" by simp
qed

lemma run_state_Inr:
  assumes "run_state L W = Inr u"
  shows "\<exists>s s3. loaded L W = Inr s \<and> match_by_geometry L W s = Inr s3 \<and>
     u = print (Total_time (clock W (ticks s3) - clock W 0)) (snd (time_time W s3))"
  using assms
  by (auto simp: run_state_def loaded_def Let_def split_beta time_time_def post_init_def
      split: sum.splits)

lemma run_Inr:
  assumes "run L W = Inr T"
  shows "\<exists>s s3. loaded L W = Inr s \<and> match_by_geometry L W s = Inr s3 \<and> T = matched s3"
proof -
  from assms obtain u where u: "run_state L W = Inr u" and T: "T = matched u"
    by (auto simp: run_def split: sum.splits)
  from run_state_Inr[OF u] T show ?thesis
    by (auto simp: print_def time_time_def)
qed

section \<open>The matching loop\<close>

lemma match_loop_Inr:
  assumes "fold_raise (match_component L W) s xs = Inr u"
  shows "map fst (matched u) = map fst (matched s) @ map snd xs \<and>
     full_components u = full_components s \<and> full_meshes u = full_meshes s \<and>
     lod_meshes u = lod_meshes s"
  using assms
proof (induction xs arbitrary: s)
  case Nil
  then show ?case by simp
next
  case (Cons x xs)
  obtain fn fh where x: "x = (fn, fh)" by (cases x)
  from Cons.prems obtain t where t: "match_component L W s (fn, fh) = Inr t"
    and r: "fold_raise (match_component L W) t xs = Inr u"
    by (auto simp: x split: sum.splits)
  note st = match_component_Inr[OF t]
  from st(6) have "map fst (matched t) = map fst (matched s) @ [fh]" by auto
  with Cons.IH[OF r] st(2-5) show ?case by (simp add: x)
qed

lemma unique_claims_step:
  assumes "match_component L W s c = Inr u" and "unique_claims s"
  shows "unique_claims u"
proof -
  obtain fn fh where c: "c = (fn, fh)" by (cases c)
  from match_component_Inr(6)[OF assms(1)[unfolded c]] obtain lname lhash sim where
    a: "map_of (lod_hash_to_name s) lhash = Some lname"
    and p: "lod_hash_to_name u = AList.delete lhash (lod_hash_to_name s)"
    and m: "matched u = matched s @ [(fh, lname, lhash, sim)]"
    by blast
  from a have inpool: "lhash \<in> fst ` set (lod_hash_to_name s)"
    by (metis map_of_eq_None_iff option.distinct(1))
  have ch: "claimed_lod_hashes (matched u) = claimed_lod_hashes (matched s) @ [lhash]"
    by (simp add: m claimed_lod_hashes_def)
  have keys: "fst ` set (lod_hash_to_name u) = fst ` set (lod_hash_to_name s) - {lhash}"
  proof -
    have "set (map fst (lod_hash_to_name u)) = set (removeAll lhash (map fst (lod_hash_to_name s)))"
      by (simp only: p AList.delete_keys)
    then show ?thesis by simp
  qed
  from assms(2) inpool show ?thesis
    unfolding unique_claims_def ch keys by auto
qed

lemma unique_claims_loop:
  assumes "fold_raise (match_component L W) s xs = Inr u" and "unique_claims s"
  shows "unique_claims u"
  by (rule fold_raise_invariant[OF assms(1), where P = unique_claims])
     (use assms(2) unique_claims_step in blast)+

text \<open>
  \<^verbatim>\<open>run\<close> is loading followed by \<^verbatim>\<open>match_by_geometry\<close>; an iteration that finds
  the component's hash in the pool takes the hash shortcut, which consults the scorer for
  that one pair only.
\<close>

lemma run_state_eq:
  "run_state L W =
     (case loaded L W of
        Inl e \<Rightarrow> Inl e
      | Inr s \<Rightarrow>
         (case match_by_geometry L W s of
            Inl e \<Rightarrow> Inl e
          | Inr s3 \<Rightarrow>
             Inr (print (Total_time (clock W (ticks s3) - clock W 0)) (snd (time_time W s3)))))"
  by (simp add: run_state_def loaded_def Let_def split_beta time_time_def post_init_def
      split: sum.splits)

lemma run_eq:
  "run L W =
     (case loaded L W of
        Inl e \<Rightarrow> Inl e
      | Inr s \<Rightarrow>
         (case match_by_geometry L W s of Inl e \<Rightarrow> Inl e | Inr s3 \<Rightarrow> Inr (matched s3)))"
  by (simp add: run_def run_state_eq print_def time_time_def split: sum.splits)

lemma match_component_hash_shortcut:
  assumes "map_of (lod_hash_to_name s) full_hash = Some lod_name"
  shows "match_component L W s (full_name, full_hash) =
     (if full_hash \<in> set (map fst (matched s))
      then Inl (ValueError (duplicate_message full_hash))
      else
        (case dict_get (full_meshes s) full_name of
           Inl e \<Rightarrow> Inl e
         | Inr full_mesh \<Rightarrow>
            (case claim_by_hash W
                    (s\<lparr>lod_hash_to_name := AList.delete full_hash (lod_hash_to_name s)\<rparr>)
                    full_name full_hash lod_name of
               Inl e \<Rightarrow> Inl e
             | Inr (s2, best_lod_name, best_lod_hash, best_similarity, t_geo) \<Rightarrow>
                record_match W s2 full_hash full_mesh
                  best_lod_name best_lod_hash best_similarity t_geo)))"
  by (cases "dict_get (full_meshes s) full_name")
    (simp_all add: match_component_def dict_pop_default_def assms Let_def)

lemma match_loop_extends:
  assumes "fold_raise (match_component L W) s xs = Inr u"
  shows "\<exists>new. matched u = matched s @ new"
  using assms
proof (induction xs arbitrary: s)
  case Nil
  then show ?case by simp
next
  case (Cons x xs)
  obtain fn fh where x: "x = (fn, fh)" by (cases x)
  from Cons.prems obtain t where t: "match_component L W s (fn, fh) = Inr t"
    and r: "fold_raise (match_component L W) t xs = Inr u"
    by (auto simp: x split: sum.splits)
  from match_component_Inr(6)[OF t] obtain e where "matched t = matched s @ [e]" by blast
  with Cons.IH[OF r] show ?case by auto
qed

lemma map_of_prefix: "map_of xs k = Some v \<Longrightarrow> map_of (xs @ ys) k = Some v"
  by (simp add: map_add_Some_iff)

lemma map_of_fresh_snoc: "k \<notin> fst ` set xs \<Longrightarrow> map_of (xs @ [(k, v)]) k = Some v"
  by (simp add: map_add_Some_iff map_of_eq_None_iff)



lemma record_match_scorer:
  "record_match (W\<lparr>calculate_similarity := f\<rparr>) s fh fm n h sim tg
     = record_match W s fh fm n h sim tg"
  by (simp add: record_match_def time_time_def Let_def split: sum.splits)

lemma claim_by_hash_scorer:
  assumes "dict_get (full_meshes s) full_name = Inr fm"
    and "dict_get (lod_meshes s) lod_name = Inr lm"
    and "f (geo_matcher s) fm lm = calculate_similarity W (geo_matcher s) fm lm"
  shows "claim_by_hash (W\<lparr>calculate_similarity := f\<rparr>) s full_name full_hash lod_name
     = claim_by_hash W s full_name full_hash lod_name"
  using assms by (simp add: claim_by_hash_def)

text \<open>
  The history of the candidate pool: an entry of the pool is either still there after a
  number of iterations, or one of the records written by these iterations references it.
\<close>

lemma pool_history:
  assumes "fold_raise (match_component L W) s xs = Inr t"
  shows "\<exists>new. matched t = matched s @ new \<and> map fst new = map snd xs \<and>
     (\<forall>h n. map_of (lod_hash_to_name s) h = Some n \<longrightarrow>
        map_of (lod_hash_to_name t) h = Some n \<or> (\<exists>fh sim. (fh, n, h, sim) \<in> set new))"
  using assms
proof (induction xs arbitrary: s)
  case Nil
  then show ?case by simp
next
  case (Cons x xs)
  obtain fn fh where x: "x = (fn, fh)" by (cases x)
  from Cons.prems obtain t1 where t1: "match_component L W s (fn, fh) = Inr t1"
    and r: "fold_raise (match_component L W) t1 xs = Inr t"
    by (auto simp: x split: sum.splits)
  from match_component_Inr(6)[OF t1] obtain lname lhash sim where
    a: "map_of (lod_hash_to_name s) lhash = Some lname"
    and p: "lod_hash_to_name t1 = AList.delete lhash (lod_hash_to_name s)"
    and m: "matched t1 = matched s @ [(fh, lname, lhash, sim)]"
    by blast
  from Cons.IH[OF r] obtain new' where n1: "matched t = matched t1 @ new'"
    and n2: "map fst new' = map snd xs"
    and n3: "\<And>h n. map_of (lod_hash_to_name t1) h = Some n \<Longrightarrow>
        map_of (lod_hash_to_name t) h = Some n \<or> (\<exists>fh sim. (fh, n, h, sim) \<in> set new')"
    by blast
  let ?new = "(fh, lname, lhash, sim) # new'"
  have "matched t = matched s @ ?new" by (simp add: n1 m)
  moreover have "map fst ?new = map snd (x # xs)" by (simp add: n2 x)
  moreover have "map_of (lod_hash_to_name t) h = Some n \<or> (\<exists>fh sim. (fh, n, h, sim) \<in> set ?new)"
    if hn: "map_of (lod_hash_to_name s) h = Some n" for h n
  proof (cases "h = lhash")
    case True
    with hn a have "n = lname" by simp
    with True show ?thesis by auto
  next
    case False
    with hn have "map_of (lod_hash_to_name t1) h = Some n"
      by (simp add: p AList.delete_conv)
    from n3[OF this] show ?thesis by auto
  qed
  ultimately show ?case by blast
qed

lemma match_loop_distinct:
  assumes "fold_raise (match_component L W) s xs = Inr u" and "distinct (map fst (matched s))"
  shows "distinct (map fst (matched u))"
proof (rule fold_raise_invariant[OF assms(1), where P = "\<lambda>a. distinct (map fst (matched a))"])
  show "distinct (map fst (matched s))" by (rule assms(2))
next
  fix a x b
  assume d: "distinct (map fst (matched a))" and b: "match_component L W a x = Inr b"
  obtain fn fh where x: "x = (fn, fh)" by (cases x)
  from match_component_Inr(1)[OF b[unfolded x]] have f: "fh \<notin> fst ` set (matched a)" .
  from match_component_Inr(6)[OF b[unfolded x]] obtain e where
    "matched b = matched a @ [(fh, e)]" by blast
  with d f show "distinct (map fst (matched b))" by simp
qed

lemma hash_shortcut_record:
  assumes "fold_raise (match_component L W) t ((full_name, full_hash) # post) = Inr s3"
    and "map_of (lod_hash_to_name t) full_hash = Some lod_name"
  shows "\<exists>sim. map_of (matched s3) full_hash = Some (lod_name, full_hash, sim)"
proof -
  from assms(1) obtain t2 where t2: "match_component L W t (full_name, full_hash) = Inr t2"
    and post: "fold_raise (match_component L W) t2 post = Inr s3"
    by (auto split: sum.splits)
  from match_component_Inr(1)[OF t2] have fresh: "full_hash \<notin> fst ` set (matched t)" .
  from assms(2) have inpool: "full_hash \<in> fst ` set (lod_hash_to_name t)"
    by (metis map_of_eq_None_iff option.distinct(1))
  from match_component_Inr(6)[OF t2] inpool assms(2) obtain sim where
    "matched t2 = matched t @ [(full_hash, lod_name, full_hash, sim)]"
    by auto
  with map_of_fresh_snoc[OF fresh, of "(lod_name, full_hash, sim)"]
  have "map_of (matched t2) full_hash = Some (lod_name, full_hash, sim)"
    by (simp only:)
  moreover from match_loop_extends[OF post] obtain new where "matched s3 = matched t2 @ new"
    by blast
  ultimately have "map_of (matched s3) full_hash = Some (lod_name, full_hash, sim)"
    using map_of_prefix[of "matched t2" full_hash "(lod_name, full_hash, sim)" new]
    by (simp only:)
  then show ?thesis by blast
qed

text \<open>
  The vertex group maps: an iteration stores the solver's map under the component's hash
  exactly when the map moves an index, and later iterations leave the entry alone.
\<close>

lemma vg_step_head:
  assumes "match_component L W s (fn, fh) = Inr t"
    and "fst ` set (vg_maps s) \<subseteq> fst ` set (matched s)"
  shows "fst ` set (vg_maps t) \<subseteq> fst ` set (matched t)"
    and "\<exists>ln lh sim fm lm vg.
       map_of (matched t) fh = Some (ln, lh, sim) \<and>
       dict_get (full_meshes t) fn = Inr fm \<and>
       dict_get (lod_meshes t) ln = Inr lm \<and>
       match_vertex_groups W fm lm = Inr vg \<and>
       map_of (vg_maps t) fh = (if \<exists>(k, v) \<in> set vg. k \<noteq> v then Some (lh, vg) else None)"
proof -
  from match_component_Inr(1)[OF assms(1)] have fresh: "fh \<notin> fst ` set (matched s)" .
  with assms(2) have vfresh: "map_of (vg_maps s) fh = None"
    by (auto simp: map_of_eq_None_iff)
  from match_component_Inr(6)[OF assms(1)] obtain ln lh sim fm lm vg where
    m: "matched t = matched s @ [(fh, ln, lh, sim)]"
    and fm: "dict_get (full_meshes s) fn = Inr fm"
    and lm: "dict_get (lod_meshes s) ln = Inr lm"
    and vg: "match_vertex_groups W fm lm = Inr vg"
    and v: "vg_maps t = (if filter (\<lambda>(k, v). k \<noteq> v) vg \<noteq> []
                     then AList.update fh (lh, vg) (vg_maps s) else vg_maps s)"
    by blast
  have f: "(filter (\<lambda>(k, v). k \<noteq> v) vg \<noteq> []) = (\<exists>(k, v) \<in> set vg. k \<noteq> v)"
    by (simp add: filter_empty_conv)
  from v assms(2) show "fst ` set (vg_maps t) \<subseteq> fst ` set (matched t)"
    by (auto simp: m AList.dom_update split: if_splits)
  have a: "map_of (matched t) fh = Some (ln, lh, sim)"
    unfolding m by (rule map_of_fresh_snoc[OF fresh])
  have b: "map_of (vg_maps t) fh = (if \<exists>(k, v) \<in> set vg. k \<noteq> v then Some (lh, vg) else None)"
    unfolding v f using vfresh by (simp add: AList.update_conv')
  from a b fm lm vg match_component_Inr(4,5)[OF assms(1)]
  show "\<exists>ln lh sim fm lm vg.
       map_of (matched t) fh = Some (ln, lh, sim) \<and>
       dict_get (full_meshes t) fn = Inr fm \<and>
       dict_get (lod_meshes t) ln = Inr lm \<and>
       match_vertex_groups W fm lm = Inr vg \<and>
       map_of (vg_maps t) fh = (if \<exists>(k, v) \<in> set vg. k \<noteq> v then Some (lh, vg) else None)"
    by (intro exI[of _ ln] exI[of _ lh] exI[of _ sim] exI[of _ fm] exI[of _ lm] exI[of _ vg])
       simp
qed

lemma vg_step_keep:
  assumes "match_component L W s (fn', fh') = Inr t"
    and "map_of (matched s) fh = Some r"
  shows "map_of (matched t) fh = Some r" and "map_of (vg_maps t) fh = map_of (vg_maps s) fh"
    and "full_meshes t = full_meshes s" and "lod_meshes t = lod_meshes s"
proof -
  from match_component_Inr(1)[OF assms(1)] assms(2) have ne: "fh \<noteq> fh'"
    by (metis map_of_eq_None_iff option.distinct(1))
  from match_component_Inr(6)[OF assms(1)] obtain ln lh sim vg where
    m: "matched t = matched s @ [(fh', ln, lh, sim)]"
    and v: "vg_maps t = (if filter (\<lambda>(k, v). k \<noteq> v) vg \<noteq> []
                     then AList.update fh' (lh, vg) (vg_maps s) else vg_maps s)"
    by blast
  show "map_of (matched t) fh = Some r"
    unfolding m by (rule map_of_prefix[OF assms(2)])
  from ne show "map_of (vg_maps t) fh = map_of (vg_maps s) fh"
    unfolding v by (simp add: AList.update_conv')
  show "full_meshes t = full_meshes s" by (rule match_component_Inr(4)[OF assms(1)])
  show "lod_meshes t = lod_meshes s" by (rule match_component_Inr(5)[OF assms(1)])
qed

lemma vg_loop_keep:
  assumes "fold_raise (match_component L W) s xs = Inr u"
    and "map_of (matched s) fh = Some r"
  shows "map_of (matched u) fh = Some r \<and> map_of (vg_maps u) fh = map_of (vg_maps s) fh \<and>
     full_meshes u = full_meshes s \<and> lod_meshes u = lod_meshes s"
proof (rule fold_raise_invariant[OF assms(1), where P = "\<lambda>a. map_of (matched a) fh = Some r \<and>
     map_of (vg_maps a) fh = map_of (vg_maps s) fh \<and>
     full_meshes a = full_meshes s \<and> lod_meshes a = lod_meshes s"])
  show "map_of (matched s) fh = Some r \<and> map_of (vg_maps s) fh = map_of (vg_maps s) fh \<and>
     full_meshes s = full_meshes s \<and> lod_meshes s = lod_meshes s"
    using assms(2) by simp
next
  fix a x b
  assume a: "map_of (matched a) fh = Some r \<and>
     map_of (vg_maps a) fh = map_of (vg_maps s) fh \<and>
     full_meshes a = full_meshes s \<and> lod_meshes a = lod_meshes s"
    and b: "match_component L W a x = Inr b"
  obtain fn' fh' where x: "x = (fn', fh')" by (cases x)
  from a have r: "map_of (matched a) fh = Some r" by simp
  note k = vg_step_keep[OF b[unfolded x] r]
  from k a show "map_of (matched b) fh = Some r \<and>
     map_of (vg_maps b) fh = map_of (vg_maps s) fh \<and>
     full_meshes b = full_meshes s \<and> lod_meshes b = lod_meshes s"
    by simp
qed

lemma vg_loop:
  assumes "fold_raise (match_component L W) s xs = Inr u"
    and "fst ` set (vg_maps s) \<subseteq> fst ` set (matched s)"
    and "(fn, fh) \<in> set xs"
  shows "\<exists>ln lh sim fm lm vg.
       map_of (matched u) fh = Some (ln, lh, sim) \<and>
       dict_get (full_meshes u) fn = Inr fm \<and>
       dict_get (lod_meshes u) ln = Inr lm \<and>
       match_vertex_groups W fm lm = Inr vg \<and>
       map_of (vg_maps u) fh = (if \<exists>(k, v) \<in> set vg. k \<noteq> v then Some (lh, vg) else None)"
  using assms
proof (induction xs arbitrary: s)
  case Nil
  then show ?case by simp
next
  case (Cons x xs)
  obtain fn' fh' where x: "x = (fn', fh')" by (cases x)
  from Cons.prems(1) obtain t where t: "match_component L W s (fn', fh') = Inr t"
    and r: "fold_raise (match_component L W) t xs = Inr u"
    by (auto simp: x split: sum.splits)
  note h = vg_step_head[OF t Cons.prems(2)]
  show ?case
  proof (cases "(fn, fh) \<in> set xs")
    case True
    from Cons.IH[OF r h(1) True] show ?thesis .
  next
    case False
    with Cons.prems(3) x have eq: "fn' = fn" "fh' = fh" by auto
    from h(2) obtain ln lh sim fm lm vg where
      a: "map_of (matched t) fh = Some (ln, lh, sim)"
      and b: "dict_get (full_meshes t) fn = Inr fm"
      and c: "dict_get (lod_meshes t) ln = Inr lm"
      and d: "match_vertex_groups W fm lm = Inr vg"
      and e: "map_of (vg_maps t) fh = (if \<exists>(k, v) \<in> set vg. k \<noteq> v then Some (lh, vg) else None)"
      unfolding eq by blast
    note k = vg_loop_keep[OF r a]
    from k a b c d e show ?thesis
      by (intro exI[of _ ln] exI[of _ lh] exI[of _ sim] exI[of _ fm] exI[of _ lm] exI[of _ vg])
         simp
  qed
qed

section \<open>The clock and the output\<close>

text \<open>
  The readings of the clock and the length of a vertex buffer go to the printed lines and
  nowhere else: two instances that differ in their output only are taken by every step,
  under two clocks, to instances that differ in their output only, or to the same
  exception.
\<close>

lemma quiet_eqD: "quiet s' = quiet s \<Longrightarrow> \<exists>out. s' = s\<lparr>stdout := out\<rparr>"
  by (cases s, cases s') (simp add: quiet_def)

lemma quiet_cases:
  assumes "map_sum id quiet A' = map_sum id quiet A"
  shows "(\<exists>e. A' = Inl e \<and> A = Inl e) \<or> (\<exists>u u'. A' = Inr u' \<and> A = Inr u \<and> quiet u' = quiet u)"
  using assms by (cases A; cases A') simp_all

lemma fold_raise_quiet:
  assumes "\<And>a a' x. quiet a' = quiet a \<Longrightarrow> map_sum id quiet (f' a' x) = map_sum id quiet (f a x)"
    and "quiet s' = quiet s"
  shows "map_sum id quiet (fold_raise f' s' xs) = map_sum id quiet (fold_raise f s xs)"
  using assms(2)
proof (induction xs arbitrary: s s')
  case Nil
  then show ?case by simp
next
  case (Cons x xs)
  from quiet_cases[OF assms(1)[OF Cons.prems, of x]] show ?case
  proof
    assume "\<exists>e. f' s' x = Inl e \<and> f s x = Inl e"
    then show ?thesis by auto
  next
    assume "\<exists>u u'. f' s' x = Inr u' \<and> f s x = Inr u \<and> quiet u' = quiet u"
    then obtain u u' where "f' s' x = Inr u'" "f s x = Inr u" and q: "quiet u' = quiet u"
      by blast
    with Cons.IH[OF q] show ?thesis by simp
  qed
qed

lemma time_time_quiet:
  assumes "quiet s' = quiet s"
  shows "quiet (snd (time_time W' s')) = quiet (snd (time_time W s))"
proof -
  from quiet_eqD[OF assms] obtain out where s': "s' = s\<lparr>stdout := out\<rparr>" by blast
  show ?thesis unfolding s' by (simp add: time_time_def quiet_def)
qed

lemma set_prefilter_resolution_quiet:
  assumes "quiet s' = quiet s"
  shows "quiet (set_prefilter_resolution L s') = quiet (set_prefilter_resolution L s)"
proof -
  from quiet_eqD[OF assms] obtain out where s': "s' = s\<lparr>stdout := out\<rparr>" by blast
  show ?thesis unfolding s' by (simp add: set_prefilter_resolution_def quiet_def)
qed

lemma set_fine_resolution_quiet:
  assumes "quiet s' = quiet s"
  shows "quiet (set_fine_resolution L s') = quiet (set_fine_resolution L s)"
proof -
  from quiet_eqD[OF assms] obtain out where s': "s' = s\<lparr>stdout := out\<rparr>" by blast
  show ?thesis unfolding s' by (simp add: set_fine_resolution_def quiet_def)
qed

lemma calculate_similarities_quiet:
  assumes "quiet s' = quiet s"
  shows "calculate_similarities (W\<lparr>vertex_buffer_len := v, clock := c\<rparr>) s' fm idx
     = calculate_similarities W s fm idx"
proof -
  from quiet_eqD[OF assms] obtain out where s': "s' = s\<lparr>stdout := out\<rparr>" by blast
  show ?thesis unfolding s'
    by (simp add: calculate_similarities_def cong: sum.case_cong)
qed

lemma prefilter_quiet:
  assumes "quiet s' = quiet s"
  shows "prefilter L (W\<lparr>vertex_buffer_len := v, clock := c\<rparr>) s' fm = prefilter L W s fm"
proof -
  from quiet_eqD[OF assms] obtain out where s': "s' = s\<lparr>stdout := out\<rparr>" by blast
  have "lod_hash_to_name s' = lod_hash_to_name s" by (simp add: s')
  then show ?thesis
    by (simp add: prefilter_def calculate_similarities_quiet[OF assms])
qed

lemma prefiltered_index_quiet:
  assumes "quiet s' = quiet s"
  shows "prefiltered_index s' pre = prefiltered_index s pre"
proof -
  from quiet_eqD[OF assms] obtain out where s': "s' = s\<lparr>stdout := out\<rparr>" by blast
  show ?thesis unfolding s' by (simp add: prefiltered_index_def)
qed

lemma claim_by_hash_quiet:
  assumes "quiet s' = quiet s"
  shows "map_sum id (\<lambda>(a, n, h, sim, t). (quiet a, n, h, sim))
           (claim_by_hash (W\<lparr>vertex_buffer_len := v, clock := c\<rparr>) s' fn fh lname)
       = map_sum id (\<lambda>(a, n, h, sim, t). (quiet a, n, h, sim)) (claim_by_hash W s fn fh lname)"
proof -
  from quiet_eqD[OF assms] obtain out where s': "s' = s\<lparr>stdout := out\<rparr>" by blast
  show ?thesis unfolding s'
    by (simp add: claim_by_hash_def quiet_def print_def split: sum.splits)
qed

lemma claim_best_quiet:
  assumes "quiet s' = quiet s"
  shows "map_sum id (\<lambda>(a, n, h, sim, t). (quiet a, n, h, sim))
           (claim_best (W\<lparr>vertex_buffer_len := v, clock := c\<rparr>) s' fn fh sims t')
       = map_sum id (\<lambda>(a, n, h, sim, t). (quiet a, n, h, sim)) (claim_best W s fn fh sims t)"
proof -
  from quiet_eqD[OF assms] obtain out where s': "s' = s\<lparr>stdout := out\<rparr>" by blast
  show ?thesis unfolding s'
    by (simp add: claim_best_def quiet_def print_def split: sum.splits option.splits prod.splits)
qed

lemma claim_by_geometry_quiet:
  assumes "quiet s' = quiet s"
  shows "map_sum id (\<lambda>(a, n, h, sim, t). (quiet a, n, h, sim))
           (claim_by_geometry L (W\<lparr>vertex_buffer_len := v, clock := c\<rparr>) s' fn fh fm)
       = map_sum id (\<lambda>(a, n, h, sim, t). (quiet a, n, h, sim))
           (claim_by_geometry L W s fn fh fm)"
proof -
  let ?W' = "W\<lparr>vertex_buffer_len := v, clock := c\<rparr>"
  let ?a' = "set_prefilter_resolution L (snd (time_time ?W' s'))"
  let ?a = "set_prefilter_resolution L (snd (time_time W s))"
  let ?b' = "set_fine_resolution L ?a'"
  let ?b = "set_fine_resolution L ?a"
  have qa: "quiet ?a' = quiet ?a"
    by (intro set_prefilter_resolution_quiet time_time_quiet assms)
  have qb: "quiet ?b' = quiet ?b"
    by (intro set_fine_resolution_quiet qa)
  have qc: "quiet (snd (time_time ?W' ?b')) = quiet (snd (time_time W ?b))"
    by (intro time_time_quiet qb)
  have e': "claim_by_geometry L ?W' s' fn fh fm =
     (case prefilter L ?W' ?a' fm of
        Inl e \<Rightarrow> Inl e
      | Inr pre \<Rightarrow>
         (case prefiltered_index ?a' pre of
            Inl e \<Rightarrow> Inl e
          | Inr idx \<Rightarrow>
             (case calculate_similarities ?W' ?b' fm idx of
                Inl e \<Rightarrow> Inl e
              | Inr sims \<Rightarrow>
                 claim_best ?W' (snd (time_time ?W' ?b')) fn fh sims
                   (fst (time_time ?W' ?b') - fst (time_time ?W' s')))))"
    by (simp add: claim_by_geometry_def Let_def split_beta cong: sum.case_cong)
  have e: "claim_by_geometry L W s fn fh fm =
     (case prefilter L W ?a fm of
        Inl e \<Rightarrow> Inl e
      | Inr pre \<Rightarrow>
         (case prefiltered_index ?a pre of
            Inl e \<Rightarrow> Inl e
          | Inr idx \<Rightarrow>
             (case calculate_similarities W ?b fm idx of
                Inl e \<Rightarrow> Inl e
              | Inr sims \<Rightarrow>
                 claim_best W (snd (time_time W ?b)) fn fh sims
                   (fst (time_time W ?b) - fst (time_time W s)))))"
    by (simp add: claim_by_geometry_def Let_def split_beta cong: sum.case_cong)
  show ?thesis
    unfolding e' e prefilter_quiet[OF qa] prefiltered_index_quiet[OF qa]
      calculate_similarities_quiet[OF qb]
    by (simp add: claim_best_quiet[OF qc] split: sum.splits)
qed

lemma record_match_quiet:
  assumes "quiet s' = quiet s"
  shows "map_sum id quiet
           (record_match (W\<lparr>vertex_buffer_len := v, clock := c\<rparr>) s' fh fm n h sim t')
       = map_sum id quiet (record_match W s fh fm n h sim t)"
proof -
  from quiet_eqD[OF assms] obtain out where s': "s' = s\<lparr>stdout := out\<rparr>" by blast
  show ?thesis unfolding s'
    by (simp add: record_match_def Let_def time_time_def quiet_def print_def split: sum.splits)
qed

lemma claim_quiet_cases:
  assumes "map_sum id (\<lambda>(a, n, h, sim, t). (quiet a, n, h, sim)) A'
         = map_sum id (\<lambda>(a, n, h, sim, t). (quiet a, n, h, sim)) A"
  shows "(\<exists>e. A' = Inl e \<and> A = Inl e) \<or>
     (\<exists>a a' n h sim t t'. A' = Inr (a', n, h, sim, t') \<and> A = Inr (a, n, h, sim, t) \<and>
        quiet a' = quiet a)"
  using assms by (cases A; cases A') auto

lemma match_component_quiet:
  assumes "quiet s' = quiet s"
  shows "map_sum id quiet (match_component L (W\<lparr>vertex_buffer_len := v, clock := c\<rparr>) s' x)
       = map_sum id quiet (match_component L W s x)"
proof -
  let ?W' = "W\<lparr>vertex_buffer_len := v, clock := c\<rparr>"
  obtain fn fh where x: "x = (fn, fh)" by (cases x)
  from quiet_eqD[OF assms] obtain out where s': "s' = s\<lparr>stdout := out\<rparr>" by blast
  let ?pool = "AList.delete fh (lod_hash_to_name s)"
  let ?s1 = "s\<lparr>lod_hash_to_name := ?pool\<rparr>"
  let ?s1' = "s'\<lparr>lod_hash_to_name := ?pool\<rparr>"
  have q1: "quiet ?s1' = quiet ?s1" by (simp add: s' quiet_def)
  have fields: "matched s' = matched s" "full_meshes s' = full_meshes s"
    "lod_hash_to_name s' = lod_hash_to_name s"
    by (simp_all add: s')
  show ?thesis
  proof (cases "fh \<in> set (map fst (matched s))")
    case True
    then show ?thesis by (simp add: match_component_def x fields)
  next
    case False
    show ?thesis
    proof (cases "dict_get (full_meshes s) fn")
      case (Inl e)
      with False show ?thesis by (simp add: match_component_def x fields)
    next
      case (Inr fm)
      let ?A' = "case map_of (lod_hash_to_name s) fh of
              Some b \<Rightarrow> claim_by_hash ?W' ?s1' fn fh b
            | None \<Rightarrow> claim_by_geometry L ?W' ?s1' fn fh fm"
      let ?A = "case map_of (lod_hash_to_name s) fh of
              Some b \<Rightarrow> claim_by_hash W ?s1 fn fh b
            | None \<Rightarrow> claim_by_geometry L W ?s1 fn fh fm"
      have m': "match_component L ?W' s' x =
        (case ?A' of Inl e \<Rightarrow> Inl e
         | Inr (s2, n, h, sim, t) \<Rightarrow> record_match ?W' s2 fh fm n h sim t)"
        using False Inr
        by (simp add: match_component_def x fields dict_pop_default_def Let_def)
      have m: "match_component L W s x =
        (case ?A of Inl e \<Rightarrow> Inl e
         | Inr (s2, n, h, sim, t) \<Rightarrow> record_match W s2 fh fm n h sim t)"
        using False Inr by (simp add: match_component_def x dict_pop_default_def Let_def)
      have "map_sum id (\<lambda>(a, n, h, sim, t). (quiet a, n, h, sim)) ?A'
          = map_sum id (\<lambda>(a, n, h, sim, t). (quiet a, n, h, sim)) ?A"
        by (cases "map_of (lod_hash_to_name s) fh")
           (simp_all add: claim_by_hash_quiet[OF q1] claim_by_geometry_quiet[OF q1])
      from claim_quiet_cases[OF this] show ?thesis
      proof
        assume "\<exists>e. ?A' = Inl e \<and> ?A = Inl e"
        then show ?thesis unfolding m' m by auto
      next
        assume "\<exists>a a' n h sim t t'. ?A' = Inr (a', n, h, sim, t') \<and> ?A = Inr (a, n, h, sim, t) \<and>
          quiet a' = quiet a"
        then obtain a a' n h sim t t' where A': "?A' = Inr (a', n, h, sim, t')"
          and A: "?A = Inr (a, n, h, sim, t)" and q: "quiet a' = quiet a"
          by blast
        show ?thesis unfolding m' m A' A
          by (simp add: record_match_quiet[OF q])
      qed
    qed
  qed
qed

lemma match_by_geometry_quiet:
  assumes "quiet s' = quiet s"
  shows "map_sum id quiet (match_by_geometry L (W\<lparr>vertex_buffer_len := v, clock := c\<rparr>) s')
       = map_sum id quiet (match_by_geometry L W s)"
proof -
  from quiet_eqD[OF assms] obtain out where s': "s' = s\<lparr>stdout := out\<rparr>" by blast
  have fc: "full_components s' = full_components s" by (simp add: s')
  show ?thesis
    unfolding match_by_geometry_def fc
    by (rule fold_raise_quiet[OF match_component_quiet assms])
qed

lemma load_metadata_clock:
  "load_metadata L (W\<lparr>vertex_buffer_len := v, clock := c\<rparr>) s = load_metadata L W s"
  by (simp add: load_metadata_def cong: sum.case_cong option.case_cong)

lemma load_meshes_quiet:
  "map_sum id quiet (load_meshes L (W\<lparr>vertex_buffer_len := v, clock := c\<rparr>) s)
     = map_sum id quiet (load_meshes L W s)"
  by (simp add: load_meshes_def Let_def split_beta time_time_def quiet_def print_def
      split: sum.splits option.splits)

lemma loaded_quiet:
  "map_sum id quiet (loaded L (W\<lparr>vertex_buffer_len := v, clock := c\<rparr>))
     = map_sum id quiet (loaded L W)"
proof -
  have i: "snd (time_time (W\<lparr>vertex_buffer_len := v, clock := c\<rparr>)
                 (post_init (W\<lparr>vertex_buffer_len := v, clock := c\<rparr>)))
         = snd (time_time W (post_init W))"
    by (simp add: time_time_def post_init_def)
  show ?thesis
    unfolding loaded_def i load_metadata_clock
    by (simp add: load_meshes_quiet split: sum.splits)
qed

lemma run_state_quiet:
  "map_sum id quiet (run_state L (W\<lparr>vertex_buffer_len := v, clock := c\<rparr>))
     = map_sum id quiet (run_state L W)"
proof -
  let ?W' = "W\<lparr>vertex_buffer_len := v, clock := c\<rparr>"
  from quiet_cases[OF loaded_quiet[where L = L and W = W and v = v and c = c]] show ?thesis
  proof
    assume "\<exists>e. loaded L ?W' = Inl e \<and> loaded L W = Inl e"
    then show ?thesis by (auto simp: run_state_eq)
  next
    assume "\<exists>u u'. loaded L ?W' = Inr u' \<and> loaded L W = Inr u \<and> quiet u' = quiet u"
    then obtain u u' where l': "loaded L ?W' = Inr u'" and l: "loaded L W = Inr u"
      and q: "quiet u' = quiet u"
      by blast
    from quiet_cases[OF match_by_geometry_quiet[OF q, where L = L and W = W and v = v and c = c]] show ?thesis
    proof
      assume "\<exists>e. match_by_geometry L ?W' u' = Inl e \<and> match_by_geometry L W u = Inl e"
      then show ?thesis by (auto simp: run_state_eq l l')
    next
      assume "\<exists>t t'. match_by_geometry L ?W' u' = Inr t' \<and> match_by_geometry L W u = Inr t \<and>
        quiet t' = quiet t"
      then obtain t t' where m': "match_by_geometry L ?W' u' = Inr t'"
        and m: "match_by_geometry L W u = Inr t" and qt: "quiet t' = quiet t"
        by blast
      from quiet_eqD[OF qt] obtain out where t': "t' = t\<lparr>stdout := out\<rparr>" by blast
      show ?thesis
        by (simp add: run_state_eq l l' m m' t' quiet_def print_def time_time_def)
    qed
  qed
qed

section \<open>Evaluation on concrete inputs\<close>

lemma str_nat_0: "str_nat 0 = ''0''"
  by code_simp

lemma str_nat_1: "str_nat (Suc 0) = ''1''"
  by code_simp

lemma str_nat_2: "str_nat (Suc (Suc 0)) = ''2''"
  by code_simp

lemmas run_defs =
  run_def run_state_def loaded_def load_metadata_def load_meshes_def post_init_def
  time_time_def print_def load_component_hashes_path_def component_name_def dict_of_def
  dict_update_def match_by_geometry_def match_component_def dict_get_def dict_pop_default_def
  dict_pop_def claim_by_geometry_def set_prefilter_resolution_def
  set_fine_resolution_def claim_best_def prefiltered_index_def claim_by_hash_def
  prefilter_def calculate_similarities_def
  sorted_reverse_def slice_to_def next_iter_def record_match_def example_matcher_def
  example_world_def example_world_2_def example_world_3_def example_score_def example_files_def str_nat_0 str_nat_1 str_nat_2
  enumerate_eq_zip update_lod_components_def load_component_hashes_json_def
  object_component_name_def load_object_meshes_def load_object_component_def
  example_world_1_def example_matcher_objects_def example_matcher_objects_same_hash_def
  tolerant_score_def example_world_6_def failing_score_def example_world_5_def

section \<open>A full component that finds the candidate pool empty\<close>

text \<open>
  C1.  The claim is that a full component whose candidate pool is empty when the coarse
  prefilter begins gets no record and raises no error, and that \<^verbatim>\<open>run\<close> completes.
  The code has no such branch: the fine scores are then an empty dict and line 202,
  \<^verbatim>\<open>next(iter(similarities.items()))\<close>, raises \<^verbatim>\<open>StopIteration\<close>, which leaves
  \<^verbatim>\<open>run\<close>.  Here the full model has two components with hashes \<open>h1\<close> and \<open>h2\<close> and the
  LOD model one component with hash \<open>h3\<close>: the first full component claims it, the second
  finds the pool empty.
\<close>

theorem C1_empty_pool_raises_StopIteration:
  "run example_matcher
     (example_world [''h1'', ''h2''] [(''Component 0'', 10), (''Component 1'', 20)]
        [''h3''] [(''Component 0'', 11)])
   = Inl StopIteration"
  by (simp add: run_defs)

section \<open>Uniqueness of the claimed LOD components\<close>

text \<open>
  C4.  After any completed run no two match records reference the same LOD content hash:
  the table that \<^verbatim>\<open>run\<close> returns is \<open>matched\<close> of the final instance, the LOD hashes
  in its records are pairwise different, and every one of them has been removed from the
  candidate pool \<open>lod_hash_to_name\<close>.
\<close>

theorem C4_no_two_records_share_a_lod_hash:
  assumes "run_state L W = Inr u"
  shows "run L W = Inr (matched u) \<and>
     distinct (claimed_lod_hashes (matched u)) \<and>
     set (claimed_lod_hashes (matched u)) \<inter> fst ` set (lod_hash_to_name u) = {}"
proof -
  from run_state_Inr[OF assms] obtain s s3 where s: "loaded L W = Inr s"
    and s3: "match_by_geometry L W s = Inr s3"
    and u: "u = print (Total_time (clock W (ticks s3) - clock W 0)) (snd (time_time W s3))"
    by blast
  from loaded_Inr(1)[OF s] have "unique_claims s"
    by (simp add: unique_claims_def claimed_lod_hashes_def)
  with s3 have "unique_claims s3"
    unfolding match_by_geometry_def by (rule unique_claims_loop)
  moreover have "matched u = matched s3" "lod_hash_to_name u = lod_hash_to_name s3"
    by (simp_all add: u print_def time_time_def)
  moreover have "run L W = Inr (matched u)"
    using assms by (simp add: run_def)
  ultimately show ?thesis by (simp add: unique_claims_def)
qed

theorem C4_witness:
  "run_state example_matcher example_world_2 = Inr example_final_2 \<and>
   run example_matcher example_world_2 = Inr (matched example_final_2) \<and>
   distinct (claimed_lod_hashes (matched example_final_2)) \<and>
   set (claimed_lod_hashes (matched example_final_2))
     \<inter> fst ` set (lod_hash_to_name example_final_2) = {}"
proof -
  have e: "run_state example_matcher example_world_2 = Inr example_final_2"
    by (simp add: run_defs example_final_2_def)
  from C4_no_two_records_share_a_lod_hash[OF e] e show ?thesis by simp
qed

section \<open>A completed run has a record for every full component\<close>

text \<open>
  C10.  If \<^verbatim>\<open>run\<close> returns normally, the keys of the returned table are exactly the
  content hashes of the full model's metadata, in metadata order; so every full component
  has a record, and a full component can be without one only when the run raised.
\<close>

theorem C10_completed_run_records_every_full_component:
  assumes "run L W = Inr T" and "full_metadata W = Inr fhs"
  shows "map fst T = fhs \<and> (\<forall>h \<in> set fhs. \<exists>r. map_of T h = Some r)"
proof -
  from run_Inr[OF assms(1)] obtain s s3 where s: "loaded L W = Inr s"
    and s3: "match_by_geometry L W s = Inr s3" and T: "T = matched s3"
    by blast
  from loaded_Inr(3)[OF s] assms(2)
  have fc: "full_components s = load_component_hashes_path fhs" by simp
  from match_loop_Inr[OF s3[unfolded match_by_geometry_def]] loaded_Inr(1)[OF s]
  have "map fst (matched s3) = map snd (full_components s)" by simp
  then have keys: "map fst T = fhs"
    by (simp add: T fc load_component_hashes_path_hashes)
  have "\<exists>r. map_of T h = Some r" if "h \<in> set fhs" for h
  proof -
    from that keys have "h \<in> fst ` set T" by (metis list.set_map)
    then show ?thesis by (metis map_of_eq_None_iff not_Some_eq)
  qed
  with keys show ?thesis by blast
qed

theorem C10_witness:
  "run example_matcher example_world_2
     = Inr [(''h1'', ''Component 0'', ''h2'', 99), (''h2'', ''Component 1'', ''h3'', 99)] \<and>
   full_metadata example_world_2 = Inr [''h1'', ''h2''] \<and>
   map fst [(''h1'', ''Component 0'', ''h2'', 99 :: rat), (''h2'', ''Component 1'', ''h3'', 99)]
     = [''h1'', ''h2'']"
proof -
  have r: "run example_matcher example_world_2
     = Inr [(''h1'', ''Component 0'', ''h2'', 99), (''h2'', ''Component 1'', ''h3'', 99)]"
    by (simp add: run_defs)
  have f: "full_metadata example_world_2 = Inr [''h1'', ''h2'']"
    by (simp add: example_world_2_def example_world_def)
  from C10_completed_run_records_every_full_component[OF r f] r f show ?thesis by simp
qed

section \<open>The fine stage chooses among the prefiltered candidates\<close>

text \<open>
  C7.  When the geometric branch resolves a full component, the winner of the fine stage
  is one of the hashes kept by the coarse prefilter, the kept hashes are keys of the
  candidate pool, and there are at most \<open>geo_matcher_prefilter_candidates_count\<close> of
  them, the count being a number of candidates (not negative).
\<close>

theorem C7_winner_is_among_the_prefiltered:
  assumes "claim_by_geometry L W s full_name full_hash full_mesh
             = Inr (s2, lod_name, lod_hash, similarity, t_geo)"
  shows "\<exists>prefiltered.
     prefilter L W (set_prefilter_resolution L (snd (time_time W s))) full_mesh = Inr prefiltered \<and>
     lod_hash \<in> set prefiltered \<and>
     set prefiltered \<subseteq> fst ` set (lod_hash_to_name s) \<and>
     (0 \<le> geo_matcher_prefilter_candidates_count L \<longrightarrow>
        int (length prefiltered) \<le> geo_matcher_prefilter_candidates_count L)"
proof -
  from claim_by_geometry_Inr(1)[OF assms] obtain pre where
    pre: "prefilter L W (set_prefilter_resolution L (snd (time_time W s))) full_mesh = Inr pre"
    and mem: "lod_hash \<in> set pre"
    by blast
  from prefilter_Inr[OF pre] have
    "set pre \<subseteq> fst ` set (lod_hash_to_name s)"
    "0 \<le> geo_matcher_prefilter_candidates_count L \<longrightarrow>
        int (length pre) \<le> geo_matcher_prefilter_candidates_count L"
    by (auto simp: set_prefilter_resolution_def time_time_def)
  with pre mem show ?thesis by blast
qed

theorem C7_witness:
  "claim_by_geometry example_matcher example_world_3 example_state ''Component 0'' ''h1'' 10
     = Inr (example_state_claimed, ''Component 0'', ''h2'', 99, 1) \<and>
   (\<exists>prefiltered.
      prefilter example_matcher example_world_3
        (set_prefilter_resolution example_matcher (snd (time_time example_world_3 example_state)))
        10 = Inr prefiltered \<and>
      ''h2'' \<in> set prefiltered \<and>
      set prefiltered \<subseteq> fst ` set (lod_hash_to_name example_state) \<and>
      ((0::int) \<le> 2 \<longrightarrow> int (length prefiltered) \<le> 2))"
proof -
  have e: "claim_by_geometry example_matcher example_world_3 example_state
             ''Component 0'' ''h1'' 10
           = Inr (example_state_claimed, ''Component 0'', ''h2'', 99, 1)"
    by (simp add: run_defs example_state_def example_state_claimed_def)
  have c: "geo_matcher_prefilter_candidates_count example_matcher = 2"
    by (simp add: example_matcher_def)
  from C7_winner_is_among_the_prefiltered[OF e] e show ?thesis
    unfolding c by simp
qed

section \<open>A LOD component whose mesh failed to load\<close>

text \<open>
  C2.  The claim is that a LOD component recorded with the absent-mesh sentinel is
  excluded from candidacy and that every later attempt to score or match against it is
  skipped, so that the run does not abort.  \<^verbatim>\<open>load_meshes\<close> does record \<^verbatim>\<open>None\<close>, and
  the sibling \<^verbatim>\<open>match_by_hash\<close> skips such a component, but in \<^verbatim>\<open>match_by_geometry\<close>
  the check is commented out: the component stays in the pool and \<^verbatim>\<open>None\<close> is passed to
  the scorer.  With the only LOD component failed, the run aborts whatever the scorer \<open>f\<close>
  and the solver \<open>g\<close> do: either the scorer raises on \<^verbatim>\<open>None\<close>, or the failed component
  wins and line 206 raises \<^verbatim>\<open>AttributeError\<close> on \<^verbatim>\<open>None.vertex_buffer\<close>.  When the
  failed component has the hash of the full component and scorer and solver accept
  \<^verbatim>\<open>None\<close>, it is matched by the hash shortcut and a record references it.
\<close>

theorem C2_absent_mesh_is_scored_and_aborts_the_run:
  "(\<exists>e. run example_matcher_objects
          (example_world_1\<lparr>calculate_similarity := f, match_vertex_groups := g\<rparr>) = Inl e) \<and>
   run example_matcher_objects example_world_1 = Inl (AttributeError ''NoneType'') \<and>
   run example_matcher_objects (example_world_1\<lparr>calculate_similarity := tolerant_score\<rparr>)
     = Inl (AttributeError ''vertex_buffer'') \<and>
   run example_matcher_objects_same_hash
       (example_world_1\<lparr>calculate_similarity := tolerant_score\<rparr>)
     = Inr [(''h1'', ''obj - Component 0'', ''h1'', 0)]"
  by (simp add: run_defs split: sum.splits)

section \<open>The order of hash resolution and geometric resolution\<close>

text \<open>
  C3 as stated: a hash pass over all full components runs before the geometric pass, so
  every full component whose hash is in the LOD hash index is claimed by hash.  \<^verbatim>\<open>run\<close>
  calls \<^verbatim>\<open>match_by_geometry\<close> only.  Here the LOD hash index holds \<open>h2\<close> (LOD
  \<open>Component 0\<close>); the first full component (hash \<open>h1\<close>) is resolved geometrically and
  claims that LOD component, and the second full component, whose hash is \<open>h2\<close>, then
  enters the geometric search and is matched to the LOD component of hash \<open>h3\<close>.
\<close>

theorem C3_counterexample:
  "map_sum id lod_hash_to_name (loaded example_matcher example_world_2)
     = Inr [(''h2'', ''Component 0''), (''h3'', ''Component 1'')] \<and>
   run example_matcher example_world_2
     = Inr [(''h1'', ''Component 0'', ''h2'', 99), (''h2'', ''Component 1'', ''h3'', 99)]"
  by (simp add: run_defs)

text \<open>
  C3 as amended.  \<^verbatim>\<open>run\<close> executes the geometric-resolution pass only, and that pass
  tries the hash shortcut for each component when its turn comes.  So, on a completed run,
  a full component whose hash is in the LOD hash index after loading is claimed by hash
  (its record references the LOD component of the same hash), unless an earlier full
  component has claimed that LOD component; then the record of the earlier component
  references it, and the component itself is resolved by the geometric search, to a LOD
  component of another hash.
\<close>

theorem C3_hash_claim_unless_claimed_earlier:
  assumes "run L W = Inr T" and "loaded L W = Inr s"
    and "full_components s = pre @ (full_name, full_hash) # post"
    and "map_of (lod_hash_to_name s) full_hash = Some lod_name"
  shows "(\<exists>similarity. map_of T full_hash = Some (lod_name, full_hash, similarity)) \<or>
     (\<exists>earlier_hash earlier_similarity name other_hash similarity.
        earlier_hash \<in> snd ` set pre \<and>
        map_of T earlier_hash = Some (lod_name, full_hash, earlier_similarity) \<and>
        map_of T full_hash = Some (name, other_hash, similarity) \<and>
        other_hash \<noteq> full_hash)"
proof -
  from assms(1,2) obtain s3 where s3: "match_by_geometry L W s = Inr s3" and T: "T = matched s3"
    by (auto simp: run_eq split: sum.splits)
  from s3 assms(3) obtain t where t: "fold_raise (match_component L W) s pre = Inr t"
    and rest: "fold_raise (match_component L W) t ((full_name, full_hash) # post) = Inr s3"
    by (auto simp: match_by_geometry_def fold_raise_append split: sum.splits)
  have empty: "matched s = []" by (rule loaded_Inr(1)[OF assms(2)])
  from pool_history[OF t] empty obtain new where new: "matched t = new"
    and keys: "map fst new = map snd pre"
    and hist: "map_of (lod_hash_to_name t) full_hash = Some lod_name \<or>
        (\<exists>fh sim. (fh, lod_name, full_hash, sim) \<in> set new)"
    using assms(4) by auto
  from hist show ?thesis
  proof
    assume "map_of (lod_hash_to_name t) full_hash = Some lod_name"
    from hash_shortcut_record[OF rest this] show ?thesis by (auto simp: T)
  next
    assume "\<exists>fh sim. (fh, lod_name, full_hash, sim) \<in> set new"
    then obtain eh es where e: "(eh, lod_name, full_hash, es) \<in> set (matched t)"
      by (auto simp: new)
    then have "eh \<in> set (map fst (matched t))" by force
    with new keys have ehpre: "eh \<in> snd ` set pre" by simp
    from match_loop_extends[OF rest] obtain more where more: "matched s3 = matched t @ more"
      by blast
    with e have eT: "(eh, lod_name, full_hash, es) \<in> set T" by (simp add: T)
    have dT: "distinct (map fst T)"
      unfolding T match_by_geometry_def
      by (rule match_loop_distinct[OF s3[unfolded match_by_geometry_def]]) (simp add: empty)
    from map_of_is_SomeI[OF dT eT] have rec_e: "map_of T eh = Some (lod_name, full_hash, es)" .
    from match_loop_Inr[OF s3[unfolded match_by_geometry_def]] empty assms(3)
    have "full_hash \<in> fst ` set T" by (simp add: T flip: set_map)
    then obtain name oh sim where rec: "map_of T full_hash = Some (name, oh, sim)"
      by (metis map_of_eq_None_iff not_Some_eq prod_cases3)
    then have aT: "(full_hash, name, oh, sim) \<in> set T" by (rule map_of_SomeD)
    from rest obtain t2 where "match_component L W t (full_name, full_hash) = Inr t2"
      by (auto split: sum.splits)
    from match_component_Inr(1)[OF this] e have ne: "eh \<noteq> full_hash" by force
    have "unique_claims s" by (simp add: unique_claims_def claimed_lod_hashes_def empty)
    with s3 have "unique_claims s3"
      unfolding match_by_geometry_def by (rule unique_claims_loop)
    then have "distinct (claimed_lod_hashes T)" by (simp add: unique_claims_def T)
    then have inj: "inj_on (\<lambda>(full_hash, lod_name, lod_hash, similarity). lod_hash) (set T)"
      by (simp add: claimed_lod_hashes_def distinct_map)
    have "oh \<noteq> full_hash"
    proof
      assume "oh = full_hash"
      with inj_onD[OF inj _ eT aT] ne show False by simp
    qed
    with ehpre rec_e rec show ?thesis by blast
  qed
qed

theorem C3_witness:
  "run example_matcher example_world_2
     = Inr [(''h1'', ''Component 0'', ''h2'', 99), (''h2'', ''Component 1'', ''h3'', 99)] \<and>
   loaded example_matcher example_world_2 = Inr example_state_2 \<and>
   full_components example_state_2
     = [(''Component 0'', ''h1'')] @ (''Component 1'', ''h2'') # [] \<and>
   map_of (lod_hash_to_name example_state_2) ''h2'' = Some ''Component 0'' \<and>
   map_of [(''h1'', ''Component 0'', ''h2'', 99 :: rat), (''h2'', ''Component 1'', ''h3'', 99)] ''h1''
     = Some (''Component 0'', ''h2'', 99) \<and>
   map_of [(''h1'', ''Component 0'', ''h2'', 99 :: rat), (''h2'', ''Component 1'', ''h3'', 99)] ''h2''
     = Some (''Component 1'', ''h3'', 99)"
proof -
  have r: "run example_matcher example_world_2
     = Inr [(''h1'', ''Component 0'', ''h2'', 99), (''h2'', ''Component 1'', ''h3'', 99)]"
    by (simp add: run_defs)
  have l: "loaded example_matcher example_world_2 = Inr example_state_2"
    by (simp add: run_defs example_state_2_def)
  have c: "full_components example_state_2
     = [(''Component 0'', ''h1'')] @ (''Component 1'', ''h2'') # []"
    by (simp add: example_state_2_def)
  have p: "map_of (lod_hash_to_name example_state_2) ''h2'' = Some ''Component 0''"
    by (simp add: example_state_2_def)
  from C3_hash_claim_unless_claimed_earlier[OF r l c p] r l c p show ?thesis by simp
qed

section \<open>Two full components with one content hash\<close>





section \<open>Priority of the shared content hash\<close>

text \<open>
  C5.  Let a completed run reach the full component \<open>A = (full_name, full_hash)\<close> with a
  LOD component \<open>lod_name\<close> of the same content hash still in the candidate pool (no
  earlier full component has claimed it).  Then the record of \<open>A\<close> in the returned table
  references that LOD component and its hash, with the similarity that the scorer gives to
  this one pair; and the iteration is the same for every scorer that agrees on this pair,
  whatever it would assign to other candidates: the geometric search is not entered.
\<close>

theorem C5_hash_priority:
  assumes "run L W = Inr T" and "loaded L W = Inr s"
    and "full_components s = pre @ (full_name, full_hash) # post"
    and "fold_raise (match_component L W) s pre = Inr t"
    and "map_of (lod_hash_to_name t) full_hash = Some lod_name"
  shows "\<exists>similarity full_mesh lod_mesh.
     map_of T full_hash = Some (lod_name, full_hash, similarity) \<and>
     dict_get (full_meshes t) full_name = Inr full_mesh \<and>
     dict_get (lod_meshes t) lod_name = Inr lod_mesh \<and>
     calculate_similarity W (geo_matcher t) full_mesh lod_mesh = Inr similarity \<and>
     (\<forall>f. f (geo_matcher t) full_mesh lod_mesh = Inr similarity \<longrightarrow>
        match_component L (W\<lparr>calculate_similarity := f\<rparr>) t (full_name, full_hash)
          = match_component L W t (full_name, full_hash))"
proof -
  from assms(1,2) obtain s3 where s3: "match_by_geometry L W s = Inr s3" and T: "T = matched s3"
    by (auto simp: run_eq split: sum.splits)
  from s3 assms(3,4) have "fold_raise (match_component L W) t ((full_name, full_hash) # post) = Inr s3"
    by (simp add: match_by_geometry_def fold_raise_append)
  then obtain t2 where t2: "match_component L W t (full_name, full_hash) = Inr t2"
    and post: "fold_raise (match_component L W) t2 post = Inr s3"
    by (auto split: sum.splits)
  from match_component_Inr(1)[OF t2] have fresh: "full_hash \<notin> fst ` set (matched t)" .
  let ?t1 = "t\<lparr>lod_hash_to_name := AList.delete full_hash (lod_hash_to_name t)\<rparr>"
  from t2 fresh obtain fm s2 n h sim tg where fm: "dict_get (full_meshes t) full_name = Inr fm"
    and ch: "claim_by_hash W ?t1 full_name full_hash lod_name = Inr (s2, n, h, sim, tg)"
    and rm: "record_match W s2 full_hash fm n h sim tg = Inr t2"
    unfolding match_component_hash_shortcut[OF assms(5)]
    by (auto split: sum.splits)
  note c = claim_by_hash_Inr[OF ch]
  from c fm obtain lm where lm: "dict_get (lod_meshes t) lod_name = Inr lm"
    and sc: "calculate_similarity W (geo_matcher t) fm lm = Inr sim"
    by auto
  from c have s2: "matched s2 = matched t" by (simp add: print_def)
  from record_match_Inr(1)[OF rm] c s2 fresh
  have "matched t2 = matched t @ [(full_hash, lod_name, full_hash, sim)]"
    by (simp add: update_fresh)
  with map_of_fresh_snoc[OF fresh, of "(lod_name, full_hash, sim)"]
  have "map_of (matched t2) full_hash = Some (lod_name, full_hash, sim)"
    by (simp only:)
  moreover from match_loop_extends[OF post] obtain new where "matched s3 = matched t2 @ new"
    by blast
  ultimately have rec: "map_of T full_hash = Some (lod_name, full_hash, sim)"
    using map_of_prefix[of "matched t2" full_hash "(lod_name, full_hash, sim)" new]
    by (simp only: T)
  have ind: "match_component L (W\<lparr>calculate_similarity := f\<rparr>) t (full_name, full_hash)
          = match_component L W t (full_name, full_hash)"
    if f: "f (geo_matcher t) fm lm = Inr sim" for f
  proof -
    have "claim_by_hash (W\<lparr>calculate_similarity := f\<rparr>) ?t1 full_name full_hash lod_name
       = claim_by_hash W ?t1 full_name full_hash lod_name"
      by (rule claim_by_hash_scorer[where fm = fm and lm = lm]) (simp_all add: fm lm f sc)
    then show ?thesis
      unfolding match_component_hash_shortcut[OF assms(5)]
      by (simp add: record_match_scorer fm split: sum.splits)
  qed
  from rec fm lm sc ind show ?thesis by blast
qed

theorem C5_witness:
  "run example_matcher example_world_5 = Inr [(''h2'', ''Component 1'', ''h2'', 60)] \<and>
   loaded example_matcher example_world_5 = Inr example_state_5 \<and>
   full_components example_state_5 = [] @ (''Component 0'', ''h2'') # [] \<and>
   fold_raise (match_component example_matcher example_world_5) example_state_5 []
     = Inr example_state_5 \<and>
   map_of (lod_hash_to_name example_state_5) ''h2'' = Some ''Component 1'' \<and>
   (\<exists>similarity full_mesh lod_mesh.
     map_of [(''h2'', ''Component 1'', ''h2'', 60 :: rat)] ''h2''
       = Some (''Component 1'', ''h2'', similarity) \<and>
     dict_get (full_meshes example_state_5) ''Component 0'' = Inr full_mesh \<and>
     dict_get (lod_meshes example_state_5) ''Component 1'' = Inr lod_mesh \<and>
     calculate_similarity example_world_5 (geo_matcher example_state_5) full_mesh lod_mesh
       = Inr similarity \<and>
     (\<forall>f. f (geo_matcher example_state_5) full_mesh lod_mesh = Inr similarity \<longrightarrow>
        match_component example_matcher (example_world_5\<lparr>calculate_similarity := f\<rparr>)
            example_state_5 (''Component 0'', ''h2'')
          = match_component example_matcher example_world_5
              example_state_5 (''Component 0'', ''h2'')))"
proof -
  have r: "run example_matcher example_world_5 = Inr [(''h2'', ''Component 1'', ''h2'', 60)]"
    by (simp add: run_defs)
  have l: "loaded example_matcher example_world_5 = Inr example_state_5"
    by (simp add: run_defs example_state_5_def)
  have c: "full_components example_state_5 = [] @ (''Component 0'', ''h2'') # []"
    by (simp add: example_state_5_def)
  have f: "fold_raise (match_component example_matcher example_world_5) example_state_5 []
     = Inr example_state_5"
    by simp
  have p: "map_of (lod_hash_to_name example_state_5) ''h2'' = Some ''Component 1''"
    by (simp add: example_state_5_def)
  from C5_hash_priority[OF r l c f p] r l c f p show ?thesis by simp
qed

section \<open>Vertex group remaps\<close>

text \<open>
  C8.  After a completed run, every full component has a record, the solver gives a map
  for the component's mesh and the mesh of the LOD component in the record, and the table
  \<open>vg_maps\<close> has an entry under the full component's hash, holding the LOD hash and that
  map, if and only if the map has an entry whose output index differs from its input
  index; for an identity map nothing is stored.
\<close>

theorem C8_remap_stored_iff_some_index_changes:
  assumes "run_state L W = Inr u" and "(full_name, full_hash) \<in> set (full_components u)"
  shows "\<exists>lod_name lod_hash similarity full_mesh lod_mesh vg_map.
     map_of (matched u) full_hash = Some (lod_name, lod_hash, similarity) \<and>
     dict_get (full_meshes u) full_name = Inr full_mesh \<and>
     dict_get (lod_meshes u) lod_name = Inr lod_mesh \<and>
     match_vertex_groups W full_mesh lod_mesh = Inr vg_map \<and>
     map_of (vg_maps u) full_hash
       = (if \<exists>(k, v) \<in> set vg_map. k \<noteq> v then Some (lod_hash, vg_map) else None)"
proof -
  from run_state_Inr[OF assms(1)] obtain s s3 where s: "loaded L W = Inr s"
    and s3: "match_by_geometry L W s = Inr s3"
    and u: "u = print (Total_time (clock W (ticks s3) - clock W 0)) (snd (time_time W s3))"
    by blast
  have same: "matched u = matched s3" "vg_maps u = vg_maps s3" "full_meshes u = full_meshes s3"
    "lod_meshes u = lod_meshes s3" "full_components u = full_components s3"
    by (simp_all add: u print_def time_time_def)
  note f = s3[unfolded match_by_geometry_def]
  from match_loop_Inr[OF f] same(5) assms(2)
  have mem: "(full_name, full_hash) \<in> set (full_components s)" by simp
  have keys: "fst ` set (vg_maps s) \<subseteq> fst ` set (matched s)"
    by (simp add: loaded_Inr(2)[OF s])
  from vg_loop[OF f keys mem] show ?thesis
    unfolding same .
qed

theorem C8_witness:
  "run_state example_matcher example_world_8 = Inr example_final_8 \<and>
   (''Component 0'', ''h1'') \<in> set (full_components example_final_8) \<and>
   (''Component 1'', ''h2'') \<in> set (full_components example_final_8) \<and>
   match_vertex_groups example_world_8 10 (Some 11) = Inr [(0, 0), (1, 2)] \<and>
   match_vertex_groups example_world_8 20 (Some 21) = Inr [(0, 0), (1, 1)] \<and>
   map_of (vg_maps example_final_8) ''h1'' = Some (''h2'', [(0, 0), (1, 2)]) \<and>
   map_of (vg_maps example_final_8) ''h2'' = None"
proof -
  have r: "run_state example_matcher example_world_8 = Inr example_final_8"
    by (simp add: run_defs example_world_8_def example_solver_def example_final_8_def
        example_final_2_def)
  have m: "(''Component 0'', ''h1'') \<in> set (full_components example_final_8)"
    by (simp add: example_final_8_def example_final_2_def)
  have e: "(''Component 1'', ''h2'') \<in> set (full_components example_final_8) \<and>
   match_vertex_groups example_world_8 10 (Some 11) = Inr [(0, 0), (1, 2)] \<and>
   match_vertex_groups example_world_8 20 (Some 21) = Inr [(0, 0), (1, 1)] \<and>
   map_of (vg_maps example_final_8) ''h1'' = Some (''h2'', [(0, 0), (1, 2)]) \<and>
   map_of (vg_maps example_final_8) ''h2'' = None"
    by (simp add: example_world_8_def example_solver_def example_final_8_def
        example_final_2_def)
  from C8_remap_stored_iff_some_index_changes[OF r m] r m e show ?thesis by simp
qed

section \<open>Determinism\<close>

text \<open>
  C9.  Two runs on identical inputs (the same matcher fields, metadata and meshes, the
  same scorer, solver and initial scorer settings) return identical match tables and leave
  identical vertex group tables, or raise the same exception.  What may differ between two
  runs is what the clock returns, and how the length of a vertex buffer is read; both
  reach the printed lines only.
\<close>

theorem C9_tables_do_not_depend_on_the_clock:
  assumes "full_metadata W' = full_metadata W" and "lod_metadata W' = lod_metadata W"
    and "full_from_paths W' = full_from_paths W" and "lod_from_paths W' = lod_from_paths W"
    and "calculate_similarity W' = calculate_similarity W"
    and "match_vertex_groups W' = match_vertex_groups W"
    and "new_geometry_matcher W' = new_geometry_matcher W"
  shows "run L W' = run L W \<and>
     map_sum id vg_maps (run_state L W') = map_sum id vg_maps (run_state L W)"
proof -
  have W': "W' = W\<lparr>vertex_buffer_len := vertex_buffer_len W', clock := clock W'\<rparr>"
    using assms by (cases W, cases W') simp
  from quiet_cases[OF run_state_quiet[where L = L and W = W and v = "vertex_buffer_len W'" and c = "clock W'"]]
  have "(\<exists>e. run_state L W' = Inl e \<and> run_state L W = Inl e) \<or>
     (\<exists>u u'. run_state L W' = Inr u' \<and> run_state L W = Inr u \<and> quiet u' = quiet u)"
    using W' by simp
  then show ?thesis
  proof
    assume "\<exists>e. run_state L W' = Inl e \<and> run_state L W = Inl e"
    then show ?thesis by (auto simp: run_def)
  next
    assume "\<exists>u u'. run_state L W' = Inr u' \<and> run_state L W = Inr u \<and> quiet u' = quiet u"
    then obtain u u' where r': "run_state L W' = Inr u'" and r: "run_state L W = Inr u"
      and q: "quiet u' = quiet u"
      by blast
    from quiet_eqD[OF q] obtain out where "u' = u\<lparr>stdout := out\<rparr>" by blast
    then show ?thesis by (simp add: run_def r r')
  qed
qed

theorem C9_witness:
  "full_metadata example_world_9 = full_metadata example_world_8 \<and>
   lod_metadata example_world_9 = lod_metadata example_world_8 \<and>
   full_from_paths example_world_9 = full_from_paths example_world_8 \<and>
   lod_from_paths example_world_9 = lod_from_paths example_world_8 \<and>
   calculate_similarity example_world_9 = calculate_similarity example_world_8 \<and>
   match_vertex_groups example_world_9 = match_vertex_groups example_world_8 \<and>
   new_geometry_matcher example_world_9 = new_geometry_matcher example_world_8 \<and>
   clock example_world_9 1 \<noteq> clock example_world_8 1 \<and>
   run example_matcher example_world_8
     = Inr [(''h1'', ''Component 0'', ''h2'', 99), (''h2'', ''Component 1'', ''h3'', 99)] \<and>
   run example_matcher example_world_9 = run example_matcher example_world_8 \<and>
   map_sum id vg_maps (run_state example_matcher example_world_9)
     = map_sum id vg_maps (run_state example_matcher example_world_8)"
proof -
  have h: "full_metadata example_world_9 = full_metadata example_world_8"
    "lod_metadata example_world_9 = lod_metadata example_world_8"
    "full_from_paths example_world_9 = full_from_paths example_world_8"
    "lod_from_paths example_world_9 = lod_from_paths example_world_8"
    "calculate_similarity example_world_9 = calculate_similarity example_world_8"
    "match_vertex_groups example_world_9 = match_vertex_groups example_world_8"
    "new_geometry_matcher example_world_9 = new_geometry_matcher example_world_8"
    by (simp_all add: example_world_9_def)
  have c: "clock example_world_9 1 \<noteq> clock example_world_8 1"
    by (simp add: example_world_9_def example_world_8_def example_world_2_def
        example_world_def)
  have r: "run example_matcher example_world_8
     = Inr [(''h1'', ''Component 0'', ''h2'', 99), (''h2'', ''Component 1'', ''h3'', 99)]"
    by (simp add: run_defs example_world_8_def example_solver_def)
  from C9_tables_do_not_depend_on_the_clock[OF h, of example_matcher] h c r
  show ?thesis by simp
qed

end
